theory Spec2Isabelle
  imports Main
begin

section \<open>Strings of the host language\<close>

text \<open>
  A string of the source language is a sequence of UTF-16 code units. A code unit is
  modelled as a natural number, so every theorem below that quantifies over strings
  covers every string the program can receive. \<open>js\<close> turns a literal into such a string.
\<close>

type_synonym jschar = nat
type_synonym jsstring = "jschar list"

definition js :: "string \<Rightarrow> jsstring" where
  "js s = map of_char s"

text \<open>
  The class \<open>\s\<close> of regular expressions, which is also what \<open>trim()\<close> strips:
  TAB, LF, VT, FF, CR, SP, NBSP, U+1680, U+2000 to U+200A, U+2028, U+2029, U+202F,
  U+205F, U+3000 and U+FEFF.
\<close>

definition isWhiteSpace :: "jschar \<Rightarrow> bool" where
  "isWhiteSpace c \<longleftrightarrow>
     c \<in> set [9, 10, 11, 12, 13, 32, 160, 5760, 8232, 8233, 8239, 8287, 12288, 65279]
     \<or> (8192 \<le> c \<and> c \<le> 8202)"

text \<open>The line terminators: LF, CR, U+2028, U+2029. \<open>.\<close> matches every other code unit.\<close>

definition isLineTerminator :: "jschar \<Rightarrow> bool" where
  "isLineTerminator c \<longleftrightarrow> c \<in> set [10, 13, 8232, 8233]"

definition anyChar :: "jschar \<Rightarrow> bool" where
  "anyChar c \<longleftrightarrow> True"

definition dotChar :: "jschar \<Rightarrow> bool" where
  "dotChar c \<longleftrightarrow> \<not> isLineTerminator c"

definition trimStart :: "jsstring \<Rightarrow> jsstring" where
  "trimStart s = dropWhile isWhiteSpace s"

definition trimEnd :: "jsstring \<Rightarrow> jsstring" where
  "trimEnd s = rev (dropWhile isWhiteSpace (rev s))"

definition trim :: "jsstring \<Rightarrow> jsstring" where
  "trim s = trimEnd (trimStart s)"

definition startsWith :: "jsstring \<Rightarrow> jsstring \<Rightarrow> bool" where
  "startsWith s p \<longleftrightarrow> take (length p) s = p"

definition endsWith :: "jsstring \<Rightarrow> jsstring \<Rightarrow> bool" where
  "endsWith s p \<longleftrightarrow> startsWith (rev s) (rev p)"

text \<open>\<open>indexOf\<close> and \<open>lastIndexOf\<close> return \<open>-1\<close> when the pattern does not occur.\<close>

fun indexOfFrom :: "jsstring \<Rightarrow> jsstring \<Rightarrow> int \<Rightarrow> int" where
  "indexOfFrom pat [] i = (if pat = [] then i else - 1)"
| "indexOfFrom pat (x # xs) i =
     (if startsWith (x # xs) pat then i else indexOfFrom pat xs (i + 1))"

definition indexOf :: "jsstring \<Rightarrow> jsstring \<Rightarrow> int" where
  "indexOf s pat = indexOfFrom pat s 0"

fun lastIndexOfFrom :: "jsstring \<Rightarrow> jsstring \<Rightarrow> int \<Rightarrow> int" where
  "lastIndexOfFrom pat [] i = (if pat = [] then i else - 1)"
| "lastIndexOfFrom pat (x # xs) i =
     (let later = lastIndexOfFrom pat xs (i + 1)
      in if later \<noteq> - 1 then later
         else if startsWith (x # xs) pat then i else - 1)"

definition lastIndexOf :: "jsstring \<Rightarrow> jsstring \<Rightarrow> int" where
  "lastIndexOf s pat = lastIndexOfFrom pat s 0"

text \<open>\<open>s.slice(a, b)\<close>: a negative index counts from the end, both are clamped.\<close>

definition slice :: "jsstring \<Rightarrow> int \<Rightarrow> int \<Rightarrow> jsstring" where
  "slice s a b =
     (let len = int (length s);
          lo = (if a < 0 then max (len + a) 0 else min a len);
          hi = (if b < 0 then max (len + b) 0 else min b len)
      in if lo < hi then take (nat (hi - lo)) (drop (nat lo) s) else [])"

fun join :: "jsstring \<Rightarrow> jsstring list \<Rightarrow> jsstring" where
  "join sep [] = []"
| "join sep [l] = l"
| "join sep (l # m # ls) = l @ sep @ join sep (m # ls)"

section \<open>Regular expressions\<close>

text \<open>
  The regular expressions of the source are sequences of the items below. A pattern is
  matched as the host's backtracking matcher does: a greedy quantifier first takes one
  more code unit and falls back to the rest of the pattern, a lazy one first tries the
  rest of the pattern. \<open>Bol\<close> and \<open>Eol\<close> are \<open>^\<close> and \<open>$\<close> without the flag \<open>m\<close>,
  \<open>BolM\<close> and \<open>EolM\<close> with it; \<open>NotAhead c\<close> is the lookahead \<open>(?!c)\<close>.
\<close>

datatype re =
    Chr jschar
  | Star "jschar \<Rightarrow> bool"
  | StarLazy "jschar \<Rightarrow> bool"
  | Plus "jschar \<Rightarrow> bool"
  | Opt jschar
  | Bol
  | Eol
  | BolM
  | EolM
  | NotAhead jschar

text \<open>
  \<open>rmatch r p s\<close> matches the pattern \<open>r\<close> at the start of \<open>s\<close>, where \<open>p\<close> is the code
  unit before \<open>s\<close> in the whole input (\<open>None\<close> at its start). It returns the input left
  after the match and the code unit before it.
\<close>

fun rmatch :: "re list \<Rightarrow> jschar option \<Rightarrow> jsstring \<Rightarrow> (jschar option \<times> jsstring) option" where
  "rmatch [] p s = Some (p, s)"
| "rmatch (Chr c # r) p [] = None"
| "rmatch (Chr c # r) p (x # xs) = (if x = c then rmatch r (Some x) xs else None)"
| "rmatch (Star P # r) p [] = rmatch r p []"
| "rmatch (Star P # r) p (x # xs) =
     (if P x then (case rmatch (Star P # r) (Some x) xs of
                     Some m \<Rightarrow> Some m
                   | None \<Rightarrow> rmatch r p (x # xs))
      else rmatch r p (x # xs))"
| "rmatch (StarLazy P # r) p [] = rmatch r p []"
| "rmatch (StarLazy P # r) p (x # xs) =
     (case rmatch r p (x # xs) of
        Some m \<Rightarrow> Some m
      | None \<Rightarrow> if P x then rmatch (StarLazy P # r) (Some x) xs else None)"
| "rmatch (Plus P # r) p [] = None"
| "rmatch (Plus P # r) p (x # xs) =
     (if P x then rmatch (Star P # r) (Some x) xs else None)"
| "rmatch (Opt c # r) p [] = rmatch r p []"
| "rmatch (Opt c # r) p (x # xs) =
     (if x = c then (case rmatch r (Some x) xs of
                       Some m \<Rightarrow> Some m
                     | None \<Rightarrow> rmatch r p (x # xs))
      else rmatch r p (x # xs))"
| "rmatch (Bol # r) p s = (if p = None then rmatch r p s else None)"
| "rmatch (Eol # r) p s = (if s = [] then rmatch r p s else None)"
| "rmatch (BolM # r) p s =
     (case p of
        None \<Rightarrow> rmatch r p s
      | Some c \<Rightarrow> if isLineTerminator c then rmatch r p s else None)"
| "rmatch (EolM # r) p s =
     (case s of
        [] \<Rightarrow> rmatch r p s
      | x # _ \<Rightarrow> if isLineTerminator x then rmatch r p s else None)"
| "rmatch (NotAhead c # r) p s =
     (case s of
        [] \<Rightarrow> rmatch r p s
      | x # _ \<Rightarrow> if x = c then None else rmatch r p s)"

text \<open>
  \<open>s.replace(r, '')\<close> for a pattern with the flag \<open>g\<close>: every match, found from left to
  right, is deleted; after an empty match the scan moves on by one code unit.
\<close>

fun replaceAll :: "re list \<Rightarrow> jschar option \<Rightarrow> jsstring \<Rightarrow> jsstring" where
  "replaceAll r p [] = []"
| "replaceAll r p (x # xs) =
     (case rmatch r p (x # xs) of
        Some (p', s') \<Rightarrow>
          if length s' < length (x # xs) then replaceAll r p' s'
          else x # replaceAll r (Some x) xs
      | None \<Rightarrow> x # replaceAll r (Some x) xs)"

text \<open>\<open>s.replace(r, '')\<close> without the flag \<open>g\<close>: only the first match is deleted.\<close>

fun replaceFirst :: "re list \<Rightarrow> jschar option \<Rightarrow> jsstring \<Rightarrow> jsstring" where
  "replaceFirst r p [] = []"
| "replaceFirst r p (x # xs) =
     (case rmatch r p (x # xs) of
        Some (p', s') \<Rightarrow> s'
      | None \<Rightarrow> x # replaceFirst r (Some x) xs)"

text \<open>
  \<open>s.split(r)\<close>: \<open>acc\<close> is the piece read since the last separator. A separator is looked
  for at every position before the end of the input; an empty match directly after the
  last separator is skipped. The empty text gives one empty piece, as it does in the host
  for a pattern that does not match the empty text, which holds for every separator of
  the source.
\<close>

function splitRe :: "re list \<Rightarrow> jschar option \<Rightarrow> jsstring \<Rightarrow> jsstring \<Rightarrow> jsstring list" where
  "splitRe r p acc [] = [acc]"
| "splitRe r p acc (x # xs) =
     (case rmatch r p (x # xs) of
        Some (p', s') \<Rightarrow>
          if length s' < length (x # xs) then acc # splitRe r p' [] s'
          else if acc \<noteq> [] \<and> s' = x # xs then acc # splitRe r p [] (x # xs)
          else splitRe r (Some x) (acc @ [x]) xs
      | None \<Rightarrow> splitRe r (Some x) (acc @ [x]) xs)"
  by pat_completeness auto
termination
  by (relation "measure (\<lambda>(r, p, acc, s). 2 * length s + (if acc = [] then 0 else 1))") auto

section \<open>Text processing (utils/textProcessor.ts)\<close>

definition isTagChar :: "jschar \<Rightarrow> bool" where
  "isTagChar c \<longleftrightarrow>
     (65 \<le> c \<and> c \<le> 90) \<or> (97 \<le> c \<and> c \<le> 122) \<or> (48 \<le> c \<and> c \<le> 57)
     \<or> c \<in> set [95, 43, 35, 46, 45]"

text \<open>The pattern \<open>/^\s*[A-Za-z0-9_+#.\-]*\s*\n/\<close> of \<open>unwrapCodeFence\<close>.\<close>

definition languageLine :: "re list" where
  "languageLine = [Bol, Star isWhiteSpace, Star isTagChar, Star isWhiteSpace, Chr 10]"

definition unwrapCodeFence :: "jsstring \<Rightarrow> jsstring" where
  "unwrapCodeFence text =
     (if text = [] then []
      else let fenceMarker = js ''```'';
               startPos = indexOf text fenceMarker;
               endPos = lastIndexOf text fenceMarker
           in if startPos \<noteq> - 1 \<and> endPos \<noteq> - 1 \<and> endPos > startPos
              then trim (replaceFirst languageLine None
                           (slice text (startPos + int (length fenceMarker)) endPos))
              else trim text)"

text \<open>
  The patterns of \<open>stripComments\<close>: \<open>/<!--[\s\S]*?-->/g\<close>, \<open>/\/\*[\s\S]*?\*\//g\<close>,
  \<open>/^\s*\/\/.*$/gm\<close>, \<open>/^\s*#(?!\!).*$/gm\<close>, the separator \<open>/\r?\n/\<close> and \<open>/\s+$/g\<close>.
\<close>

definition htmlComment :: "re list" where
  "htmlComment = map Chr (js ''<!--'') @ [StarLazy anyChar] @ map Chr (js ''-->'')"

definition blockComment :: "re list" where
  "blockComment = map Chr (js ''/*'') @ [StarLazy anyChar] @ map Chr (js ''*/'')"

definition slashLine :: "re list" where
  "slashLine = [BolM, Star isWhiteSpace, Chr 47, Chr 47, Star dotChar, EolM]"

definition hashLine :: "re list" where
  "hashLine = [BolM, Star isWhiteSpace, Chr 35, NotAhead 33, Star dotChar, EolM]"

definition lineBreak :: "re list" where
  "lineBreak = [Opt 13, Chr 10]"

definition trailingSpace :: "re list" where
  "trailingSpace = [Plus isWhiteSpace, Eol]"

text \<open>The four passes that delete comments, in the order of the source.\<close>

definition removeComments :: "jsstring \<Rightarrow> jsstring" where
  "removeComments text =
     replaceAll hashLine None
       (replaceAll slashLine None
          (replaceAll blockComment None
             (replaceAll htmlComment None text)))"

text \<open>The clean-up after them: split into lines, strip, drop blank lines, join, trim.\<close>

definition cleanUp :: "jsstring \<Rightarrow> jsstring" where
  "cleanUp text =
     trim (join [10]
       (filter (\<lambda>line. trim line \<noteq> [])
          (map (replaceAll trailingSpace None)
             (splitRe lineBreak None [] text))))"

definition stripComments :: "jsstring \<Rightarrow> jsstring" where
  "stripComments text = (if text = [] then [] else cleanUp (removeComments text))"

text \<open>
  An editor holds its cursors (the active position of each selection, a line and a
  column) and the insertions made through its edit builder.
\<close>

type_synonym position = "nat \<times> nat"

record TextEditor =
  selections :: "position list"
  inserted :: "(position \<times> jsstring) list"

definition insertTextAtCursors :: "TextEditor \<Rightarrow> jsstring \<Rightarrow> TextEditor" where
  "insertTextAtCursors editor text =
     (let textToInsert = (if endsWith text [10] then text else text @ [10])
      in editor\<lparr>inserted :=
           inserted editor @ map (\<lambda>selection. (selection, textToInsert)) (selections editor)\<rparr>)"

section \<open>The second copy of the helpers (lib/textUtils.ts)\<close>

text \<open>
  \<open>lib/textUtils.ts\<close> holds a second copy of \<open>unwrapCodeFence\<close> and \<open>stripComments\<close>, which
  no other file of the program imports. Its \<open>unwrapCodeFence\<close> is the function above,
  statement by statement. Its \<open>stripComments\<close> has the same four deleting passes and
  differs in the filter of the clean-up,
  \<open>(l, i, arr) => l.trim() !== '' || (i > 0 && arr[i - 1].trim() !== '')\<close>: a blank line is
  kept when the line before it, in the array being filtered, is not blank.
  \<open>libFilter prev arr\<close> filters the rest \<open>arr\<close> of that array, where \<open>prev\<close> tells whether
  there is a line before the rest and it is not blank.
\<close>

fun libFilter :: "bool \<Rightarrow> jsstring list \<Rightarrow> jsstring list" where
  "libFilter prev [] = []"
| "libFilter prev (l # arr) =
     (if trim l \<noteq> [] \<or> prev then l # libFilter (trim l \<noteq> []) arr
      else libFilter (trim l \<noteq> []) arr)"

definition stripCommentsLib :: "jsstring \<Rightarrow> jsstring" where
  "stripCommentsLib text =
     (if text = [] then []
      else trim (join [10]
             (libFilter False
                (map (replaceAll trailingSpace None)
                   (splitRe lineBreak None [] (removeComments text))))))"

section \<open>The host: editor, workspace and file system\<close>

text \<open>
  The text encoder and decoder of the host. \<open>TextEncoder_encode\<close> is
  \<open>new TextEncoder().encode(s)\<close>: the UTF-8 bytes of the text, where a surrogate pair gives
  the four bytes of its code point and a surrogate that is not part of a pair gives the
  bytes of U+FFFD. \<open>TextDecoder_decode\<close> is \<open>new TextDecoder().decode(bytes)\<close>: a leading
  byte order mark is dropped, every ill-formed sequence gives one U+FFFD and decoding
  resumes at the byte that broke the sequence.
\<close>

type_synonym bytes = "nat list"

definition isHighSurrogate :: "jschar \<Rightarrow> bool" where
  "isHighSurrogate c \<longleftrightarrow> 55296 \<le> c \<and> c \<le> 56319"

definition isLowSurrogate :: "jschar \<Rightarrow> bool" where
  "isLowSurrogate c \<longleftrightarrow> 56320 \<le> c \<and> c \<le> 57343"

definition utf8 :: "nat \<Rightarrow> bytes" where
  "utf8 cp =
     (if cp < 128 then [cp]
      else if cp < 2048 then [192 + cp div 64, 128 + cp mod 64]
      else if cp < 65536 then [224 + cp div 4096, 128 + cp div 64 mod 64, 128 + cp mod 64]
      else [240 + cp div 262144, 128 + cp div 4096 mod 64, 128 + cp div 64 mod 64,
            128 + cp mod 64])"

fun TextEncoder_encode :: "jsstring \<Rightarrow> bytes" where
  "TextEncoder_encode [] = []"
| "TextEncoder_encode [c] =
     (if isHighSurrogate c \<or> isLowSurrogate c then utf8 65533 else utf8 c)"
| "TextEncoder_encode (c # d # s) =
     (if isHighSurrogate c \<and> isLowSurrogate d
      then utf8 (65536 + (c - 55296) * 1024 + (d - 56320)) @ TextEncoder_encode s
      else if isHighSurrogate c \<or> isLowSurrogate c
      then utf8 65533 @ TextEncoder_encode (d # s)
      else utf8 c @ TextEncoder_encode (d # s))"


definition utf16 :: "nat \<Rightarrow> jsstring" where
  "utf16 cp =
     (if cp < 65536 then [cp]
      else [55296 + (cp - 65536) div 1024, 56320 + (cp - 65536) mod 1024])"

text \<open>
  \<open>decodeFrom needed cp lo hi bs\<close>: the decoder in the middle of a sequence that still
  needs \<open>needed\<close> bytes, has read the code point bits \<open>cp\<close> and accepts a next byte from
  \<open>lo\<close> to \<open>hi\<close>.
\<close>

fun decodeFrom :: "nat \<Rightarrow> nat \<Rightarrow> nat \<Rightarrow> nat \<Rightarrow> bytes \<Rightarrow> jsstring" where
  "decodeFrom needed cp lo hi [] = (if needed = 0 then [] else [65533])"
| "decodeFrom needed cp lo hi (b # bs) =
     (if needed = 0
      then (if b < 128 then b # decodeFrom 0 0 128 191 bs
            else if 194 \<le> b \<and> b \<le> 223 then decodeFrom 1 (b - 192) 128 191 bs
            else if b = 224 then decodeFrom 2 (b - 224) 160 191 bs
            else if b = 237 then decodeFrom 2 (b - 224) 128 159 bs
            else if 225 \<le> b \<and> b \<le> 239 then decodeFrom 2 (b - 224) 128 191 bs
            else if b = 240 then decodeFrom 3 (b - 240) 144 191 bs
            else if b = 244 then decodeFrom 3 (b - 240) 128 143 bs
            else if 241 \<le> b \<and> b \<le> 243 then decodeFrom 3 (b - 240) 128 191 bs
            else 65533 # decodeFrom 0 0 128 191 bs)
      else if lo \<le> b \<and> b \<le> hi
      then (if needed = 1 then utf16 (cp * 64 + (b - 128)) @ decodeFrom 0 0 128 191 bs
            else decodeFrom (needed - 1) (cp * 64 + (b - 128)) 128 191 bs)
      else 65533 # decodeFrom 0 0 128 191 (b # bs))"

definition TextDecoder_decode :: "bytes \<Rightarrow> jsstring" where
  "TextDecoder_decode bs =
     decodeFrom 0 0 128 191 (if take 3 bs = [239, 187, 191] then drop 3 bs else bs)"

text \<open>
  A resource identifier is identified with its path component: the executor reads no
  other component. The file system is the capability of the specification: a store from
  locations to the bytes of the files, where writing creates or overwrites, and every
  call is recorded so that the calls of a run can be counted. Reading throws (\<open>None\<close>) for
  an absent file and for a location that the host refuses to read (\<open>readErrors\<close>: a
  directory, a file without permission).
\<close>

type_synonym uri = jsstring

datatype fs_call = ReadFile uri | WriteFile uri bytes | CreateDirectory uri

record host =
  activeTextEditor :: "TextEditor option"
  workspaceFolders :: "uri list"
  files :: "uri \<Rightarrow> bytes option"
  readErrors :: "uri \<Rightarrow> bool"
  fsCalls :: "fs_call list"

definition readFile :: "host \<Rightarrow> uri \<Rightarrow> bytes option \<times> host" where
  "readFile h u =
     (if readErrors h u then None else files h u, h\<lparr>fsCalls := fsCalls h @ [ReadFile u]\<rparr>)"

definition writeFile :: "host \<Rightarrow> uri \<Rightarrow> bytes \<Rightarrow> host" where
  "writeFile h u fileData =
     h\<lparr>files := (files h)(u := Some fileData), fsCalls := fsCalls h @ [WriteFile u fileData]\<rparr>"

definition createDirectory :: "host \<Rightarrow> uri \<Rightarrow> host" where
  "createDirectory h u = h\<lparr>fsCalls := fsCalls h @ [CreateDirectory u]\<rparr>"

fun isWrite :: "fs_call \<Rightarrow> bool" where
  "isWrite (WriteFile u d) = True"
| "isWrite c = False"

fun isCreateDirectory :: "fs_call \<Rightarrow> bool" where
  "isCreateDirectory (CreateDirectory u) = True"
| "isCreateDirectory c = False"

text \<open>
  What a run reports to the user: one constructor for each message the source shows, and
  \<open>NoMessage\<close> for a run that shows none.
\<close>

datatype outcome =
    NoActiveEditor
  | NoCodeContent
  | InsertedCode nat
  | NoWorkspaceFolder
  | NoFilePath
  | RefusedOutsideWorkspace
  | CreatedFile uri
  | AppendedTo uri
  | NoMessage

section \<open>Model actions (services/modelActions.ts)\<close>

record ModelAction =
  action :: jsstring
  path :: "jsstring option"
  content :: "jsstring option"

definition validActions :: "jsstring list" where
  "validActions = [js ''create_file'', js ''append_file'', js ''insert_code'']"

text \<open>
  The value \<open>JSON.parse\<close> returns. A number keeps its literal: the program only asks
  whether a property is a string. \<open>getProp\<close> is the property access \<open>obj.k\<close> for the
  names the program reads (\<open>action\<close>, \<open>path\<close>, \<open>content\<close>): the last member of that name
  for an object, undefined (\<open>None\<close>) for every other value.
\<close>

datatype json =
    JNull
  | JBool bool
  | JNumber jsstring
  | JString jsstring
  | JArray "json list"
  | JObject "(jsstring \<times> json) list"

fun getProp :: "json \<Rightarrow> jsstring \<Rightarrow> json option" where
  "getProp (JObject members) k = map_of (rev members) k"
| "getProp v k = None"

fun stringProp :: "json \<Rightarrow> jsstring \<Rightarrow> jsstring option" where
  "stringProp obj k = (case getProp obj k of Some (JString s) \<Rightarrow> Some s | _ \<Rightarrow> None)"

text \<open>
  \<open>parseModelAction\<close>, with the host's \<open>JSON.parse\<close> as the parameter \<open>parse\<close>: \<open>None\<close>
  from \<open>parse\<close> is its exception, which the source catches.
\<close>

definition parseModelAction :: "(jsstring \<Rightarrow> json option) \<Rightarrow> jsstring \<Rightarrow> ModelAction option" where
  "parseModelAction parse responseText =
     (let cleanText = trim responseText
      in if cleanText = [] then None
         else let startBrace = indexOf cleanText [123];
                  endBrace = lastIndexOf cleanText [125]
              in if startBrace = - 1 \<or> endBrace = - 1 \<or> endBrace \<le> startBrace then None
                 else let jsonCandidate = slice cleanText startBrace (endBrace + 1)
                      in case parse jsonCandidate of
                           None \<Rightarrow> None
                         | Some parsedObject \<Rightarrow>
                             (case getProp parsedObject (js ''action'') of
                                Some (JString actionType) \<Rightarrow>
                                  if actionType \<in> set validActions
                                  then Some \<lparr>action = actionType,
                                             path = stringProp parsedObject (js ''path''),
                                             content = stringProp parsedObject (js ''content'')\<rparr>
                                  else None
                              | _ \<Rightarrow> None))"

definition handleCodeInsertion :: "host \<Rightarrow> jsstring option \<Rightarrow> outcome \<times> host" where
  "handleCodeInsertion h contentOpt =
     (case activeTextEditor h of
        None \<Rightarrow> (NoActiveEditor, h)
      | Some editor \<Rightarrow>
          let codeToInsert = (case contentOpt of None \<Rightarrow> [] | Some c \<Rightarrow> c);
              cleanCode = stripComments (unwrapCodeFence codeToInsert)
          in if cleanCode = [] then (NoCodeContent, h)
             else (InsertedCode (length cleanCode),
                   h\<lparr>activeTextEditor := Some (insertTextAtCursors editor cleanCode)\<rparr>))"

text \<open>The patterns \<open>/^([/\\])+/\<close> of \<open>sanitizeFilePath\<close> and \<open>/[\/\\]+/\<close> of the split.\<close>

definition isSlash :: "jschar \<Rightarrow> bool" where
  "isSlash c \<longleftrightarrow> c = 47 \<or> c = 92"

definition leadingSlashes :: "re list" where
  "leadingSlashes = [Bol, Plus isSlash]"

definition slashRun :: "re list" where
  "slashRun = [Plus isSlash]"

definition sanitizeFilePath :: "jsstring \<Rightarrow> jsstring" where
  "sanitizeFilePath p = replaceFirst leadingSlashes None p"

definition pathSegmentsOf :: "jsstring \<Rightarrow> jsstring list" where
  "pathSegmentsOf p = filter (\<lambda>s. s \<noteq> []) (splitRe slashRun None [] (sanitizeFilePath p))"

definition isPathWithinWorkspace :: "uri \<Rightarrow> uri \<Rightarrow> bool" where
  "isPathWithinWorkspace filePath workspaceRoot =
     (let workspaceRootPath =
            (if endsWith workspaceRoot [47] then workspaceRoot else workspaceRoot @ [47])
      in startsWith filePath workspaceRootPath)"

text \<open>
  \<open>createNewFile\<close> writes the encoded content. \<open>appendToFile\<close> reads the file first; its
  \<open>catch\<close> takes every failure of the read for a file that does not exist yet and goes on
  with the empty text.
\<close>

definition createNewFile :: "host \<Rightarrow> uri \<Rightarrow> jsstring \<Rightarrow> outcome \<times> host" where
  "createNewFile h fileUri c =
     (let fileData = TextEncoder_encode c
      in (CreatedFile fileUri, writeFile h fileUri fileData))"

definition appendToFile :: "host \<Rightarrow> uri \<Rightarrow> jsstring \<Rightarrow> outcome \<times> host" where
  "appendToFile h fileUri c =
     (let (existingData, h1) = readFile h fileUri;
          existingContent = (case existingData of
                               None \<Rightarrow> []
                             | Some d \<Rightarrow> TextDecoder_decode d);
          needsNewline = (existingContent \<noteq> [] \<and> \<not> endsWith existingContent [10]);
          combinedContent = existingContent @ (if needsNewline then [10] else []) @ c;
          fileData = TextEncoder_encode combinedContent
      in (AppendedTo fileUri, writeFile h1 fileUri fileData))"

text \<open>
  \<open>handleFileOperation\<close>, with the host's \<open>Uri.joinPath\<close> as the parameter \<open>joinPath\<close>.
  Opening the written file in the editor afterwards changes neither the file system nor
  the outcome and is left out.
\<close>

definition handleFileOperation ::
  "(uri \<Rightarrow> jsstring list \<Rightarrow> uri) \<Rightarrow> host \<Rightarrow> ModelAction \<Rightarrow> outcome \<times> host" where
  "handleFileOperation joinPath h a =
     (case workspaceFolders h of
        [] \<Rightarrow> (NoWorkspaceFolder, h)
      | workspaceRoot # others \<Rightarrow>
          (case path a of
             None \<Rightarrow> (NoFilePath, h)
           | Some p \<Rightarrow>
               if p = [] then (NoFilePath, h)
               else let pathSegments = pathSegmentsOf p;
                        targetFileUri = joinPath workspaceRoot pathSegments
                    in if \<not> isPathWithinWorkspace targetFileUri workspaceRoot
                       then (RefusedOutsideWorkspace, h)
                       else let h1 = (if length pathSegments > 1
                                      then createDirectory h
                                             (joinPath workspaceRoot (butlast pathSegments))
                                      else h);
                                c = (case content a of None \<Rightarrow> [] | Some c \<Rightarrow> c)
                            in if action a = js ''create_file''
                               then createNewFile h1 targetFileUri c
                               else if action a = js ''append_file''
                               then appendToFile h1 targetFileUri c
                               else (NoMessage, h1)))"

definition executeModelAction ::
  "(uri \<Rightarrow> jsstring list \<Rightarrow> uri) \<Rightarrow> host \<Rightarrow> ModelAction \<Rightarrow> outcome \<times> host" where
  "executeModelAction joinPath h a =
     (if action a = js ''insert_code'' then handleCodeInsertion h (content a)
      else handleFileOperation joinPath h a)"

section \<open>The response pipeline (ui/webviewProvider.ts)\<close>

definition insertCodeResponse :: "host \<Rightarrow> jsstring \<Rightarrow> outcome \<times> host" where
  "insertCodeResponse h response =
     (case activeTextEditor h of
        None \<Rightarrow> (NoActiveEditor, h)
      | Some activeEditor \<Rightarrow>
          let cleanedCode = stripComments (unwrapCodeFence response)
          in if cleanedCode = [] then (NoCodeContent, h)
             else (InsertedCode (length cleanedCode),
                   h\<lparr>activeTextEditor := Some (insertTextAtCursors activeEditor cleanedCode)\<rparr>))"

text \<open>\<open>handleUserPrompt\<close> from the point where the model's response has arrived.\<close>

definition handleUserPrompt ::
  "(jsstring \<Rightarrow> json option) \<Rightarrow> (uri \<Rightarrow> jsstring list \<Rightarrow> uri) \<Rightarrow> host \<Rightarrow> jsstring
     \<Rightarrow> outcome \<times> host" where
  "handleUserPrompt parse joinPath h aiResponse =
     (case parseModelAction parse aiResponse of
        Some modelAction \<Rightarrow> executeModelAction joinPath h modelAction
      | None \<Rightarrow> insertCodeResponse h aiResponse)"

section \<open>The host functions used in the examples\<close>

text \<open>
  The theorems below hold for every \<open>JSON.parse\<close> and every \<open>Uri.joinPath\<close>. The
  examples need one of each. \<open>posixJoinPath\<close> is the host's path join on a POSIX host:
  the non-empty pieces are joined with \<open>/\<close> and the result is normalised (\<open>.\<close> and empty
  segments dropped, \<open>..\<close> removing the segment before it, never rising above the root of
  an absolute path). The host refuses a root whose path is empty, which the root of a
  workspace never is.
\<close>

fun normalizeString :: "bool \<Rightarrow> jsstring list \<Rightarrow> jsstring list \<Rightarrow> jsstring list" where
  "normalizeString allowAboveRoot res [] = rev res"
| "normalizeString allowAboveRoot res (seg # segs) =
     (if seg = [] \<or> seg = [46] then normalizeString allowAboveRoot res segs
      else if seg = [46, 46]
      then (case res of
              [] \<Rightarrow> normalizeString allowAboveRoot (if allowAboveRoot then [seg] else []) segs
            | lastSeg # res' \<Rightarrow>
                if lastSeg \<noteq> [46, 46] then normalizeString allowAboveRoot res' segs
                else normalizeString allowAboveRoot
                       (if allowAboveRoot then seg # res else res) segs)
      else normalizeString allowAboveRoot (seg # res) segs)"

definition posixNormalize :: "jsstring \<Rightarrow> jsstring" where
  "posixNormalize p =
     (let isAbsolute = (p \<noteq> [] \<and> hd p = 47);
          trailingSeparator = (p \<noteq> [] \<and> last p = 47);
          body = join [47] (normalizeString (\<not> isAbsolute) [] (splitRe [Chr 47] None [] p))
      in if p = [] then [46]
         else if body = []
         then (if isAbsolute then [47] else if trailingSeparator then [46, 47] else [46])
         else (if isAbsolute then [47] else []) @ body
                @ (if trailingSeparator then [47] else []))"

definition posixJoinPath :: "uri \<Rightarrow> jsstring list \<Rightarrow> uri" where
  "posixJoinPath root pathFragment =
     posixNormalize (join [47] (filter (\<lambda>s. s \<noteq> []) (root # pathFragment)))"

text \<open>
  \<open>JSONparse\<close> is \<open>JSON.parse\<close>: a recursive-descent parser of the JSON grammar. The
  recursion on nested values is bounded by a fuel taken from the length of the input;
  \<open>SyntaxError\<close> is the exception of the host. Every example below ends with a value or
  with \<open>SyntaxError\<close>, never with the fuel used up.
\<close>

datatype perr = SyntaxError | OutOfFuel

definition isJsonSpace :: "jschar \<Rightarrow> bool" where
  "isJsonSpace c \<longleftrightarrow> c \<in> set [32, 9, 10, 13]"

definition skipWs :: "jsstring \<Rightarrow> jsstring" where
  "skipWs s = dropWhile isJsonSpace s"

definition isDigit :: "jschar \<Rightarrow> bool" where
  "isDigit c \<longleftrightarrow> 48 \<le> c \<and> c \<le> 57"

definition hexVal :: "jschar \<Rightarrow> nat option" where
  "hexVal c =
     (if 48 \<le> c \<and> c \<le> 57 then Some (c - 48)
      else if 97 \<le> c \<and> c \<le> 102 then Some (c - 87)
      else if 65 \<le> c \<and> c \<le> 70 then Some (c - 55)
      else None)"

text \<open>The characters of a string after its opening quote, up to the closing quote.\<close>

fun parseChars :: "jsstring \<Rightarrow> jsstring \<Rightarrow> (jsstring \<times> jsstring) option" where
  "parseChars acc [] = None"
| "parseChars acc [c] = (if c = 34 then Some (acc, []) else None)"
| "parseChars acc (c # e # es) =
     (if c = 34 then Some (acc, e # es)
      else if c = 92
      then (if e = 34 \<or> e = 92 \<or> e = 47 then parseChars (acc @ [e]) es
            else if e = 98 then parseChars (acc @ [8]) es
            else if e = 102 then parseChars (acc @ [12]) es
            else if e = 110 then parseChars (acc @ [10]) es
            else if e = 114 then parseChars (acc @ [13]) es
            else if e = 116 then parseChars (acc @ [9]) es
            else if e = 117
            then (case map hexVal (take 4 es) of
                    [Some a, Some b, Some c', Some d] \<Rightarrow>
                      parseChars (acc @ [((a * 16 + b) * 16 + c') * 16 + d]) (drop 4 es)
                  | _ \<Rightarrow> None)
            else None)
      else if c < 32 then None
      else parseChars (acc @ [c]) (e # es))"

definition parseInt :: "jsstring \<Rightarrow> (jsstring \<times> jsstring) option" where
  "parseInt s =
     (case s of
        [] \<Rightarrow> None
      | c # cs \<Rightarrow>
          if c = 48 then Some ([c], cs)
          else if isDigit c then Some (c # takeWhile isDigit cs, dropWhile isDigit cs)
          else None)"

definition parseFrac :: "jsstring \<Rightarrow> (jsstring \<times> jsstring) option" where
  "parseFrac s =
     (case s of
        [] \<Rightarrow> Some ([], [])
      | c # cs \<Rightarrow>
          if c = 46
          then (if takeWhile isDigit cs = [] then None
                else Some (c # takeWhile isDigit cs, dropWhile isDigit cs))
          else Some ([], s))"

definition parseExp :: "jsstring \<Rightarrow> (jsstring \<times> jsstring) option" where
  "parseExp s =
     (case s of
        [] \<Rightarrow> Some ([], [])
      | c # cs \<Rightarrow>
          if c = 101 \<or> c = 69
          then (let sgn = (if cs \<noteq> [] \<and> (hd cs = 43 \<or> hd cs = 45) then [hd cs] else []);
                    ds = drop (length sgn) cs
                in if takeWhile isDigit ds = [] then None
                   else Some (c # sgn @ takeWhile isDigit ds, dropWhile isDigit ds))
          else Some ([], s))"

definition parseNumber :: "jsstring \<Rightarrow> (jsstring \<times> jsstring) option" where
  "parseNumber s =
     (let sgn = (if s \<noteq> [] \<and> hd s = 45 then [45] else [])
      in case parseInt (drop (length sgn) s) of
           None \<Rightarrow> None
         | Some (i, s1) \<Rightarrow>
             (case parseFrac s1 of
                None \<Rightarrow> None
              | Some (f, s2) \<Rightarrow>
                  (case parseExp s2 of
                     None \<Rightarrow> None
                   | Some (e, s3) \<Rightarrow> Some (sgn @ i @ f @ e, s3))))"

fun parseValue :: "nat \<Rightarrow> jsstring \<Rightarrow> perr + json \<times> jsstring"
  and parseElements :: "nat \<Rightarrow> json list \<Rightarrow> jsstring \<Rightarrow> perr + json list \<times> jsstring"
  and parseMembers ::
    "nat \<Rightarrow> (jsstring \<times> json) list \<Rightarrow> jsstring \<Rightarrow> perr + (jsstring \<times> json) list \<times> jsstring"
where
  "parseValue 0 s = Inl OutOfFuel"
| "parseValue (Suc n) s =
     (case skipWs s of
        [] \<Rightarrow> Inl SyntaxError
      | c # cs \<Rightarrow>
          if c = 123
          then (if skipWs cs \<noteq> [] \<and> hd (skipWs cs) = 125
                then Inr (JObject [], tl (skipWs cs))
                else (case parseMembers n [] cs of
                        Inl e \<Rightarrow> Inl e
                      | Inr (members, rest) \<Rightarrow> Inr (JObject members, rest)))
          else if c = 91
          then (if skipWs cs \<noteq> [] \<and> hd (skipWs cs) = 93
                then Inr (JArray [], tl (skipWs cs))
                else (case parseElements n [] cs of
                        Inl e \<Rightarrow> Inl e
                      | Inr (elements, rest) \<Rightarrow> Inr (JArray elements, rest)))
          else if c = 34
          then (case parseChars [] cs of
                  None \<Rightarrow> Inl SyntaxError
                | Some (str, rest) \<Rightarrow> Inr (JString str, rest))
          else if startsWith (c # cs) (js ''true'') then Inr (JBool True, drop 4 (c # cs))
          else if startsWith (c # cs) (js ''false'') then Inr (JBool False, drop 5 (c # cs))
          else if startsWith (c # cs) (js ''null'') then Inr (JNull, drop 4 (c # cs))
          else (case parseNumber (c # cs) of
                  None \<Rightarrow> Inl SyntaxError
                | Some (lit, rest) \<Rightarrow> Inr (JNumber lit, rest)))"
| "parseElements 0 acc s = Inl OutOfFuel"
| "parseElements (Suc n) acc s =
     (case parseValue n s of
        Inl e \<Rightarrow> Inl e
      | Inr (v, rest) \<Rightarrow>
          (case skipWs rest of
             [] \<Rightarrow> Inl SyntaxError
           | c # cs \<Rightarrow>
               if c = 44 then parseElements n (acc @ [v]) cs
               else if c = 93 then Inr (acc @ [v], cs)
               else Inl SyntaxError))"
| "parseMembers 0 acc s = Inl OutOfFuel"
| "parseMembers (Suc n) acc s =
     (case skipWs s of
        [] \<Rightarrow> Inl SyntaxError
      | q # qs \<Rightarrow>
          if q \<noteq> 34 then Inl SyntaxError
          else (case parseChars [] qs of
                  None \<Rightarrow> Inl SyntaxError
                | Some (key, afterKey) \<Rightarrow>
                    (case skipWs afterKey of
                       [] \<Rightarrow> Inl SyntaxError
                     | c # cs \<Rightarrow>
                         if c \<noteq> 58 then Inl SyntaxError
                         else (case parseValue n cs of
                                 Inl e \<Rightarrow> Inl e
                               | Inr (v, rest) \<Rightarrow>
                                   (case skipWs rest of
                                      [] \<Rightarrow> Inl SyntaxError
                                    | d # ds \<Rightarrow>
                                        if d = 44 then parseMembers n (acc @ [(key, v)]) ds
                                        else if d = 125 then Inr (acc @ [(key, v)], ds)
                                        else Inl SyntaxError)))))"

definition JSONparse :: "jsstring \<Rightarrow> json option" where
  "JSONparse s =
     (case parseValue (2 * length s + 1) s of
        Inl e \<Rightarrow> None
      | Inr (v, rest) \<Rightarrow> if skipWs rest = [] then Some v else None)"

text \<open>
  The host of the examples: the workspace \<open>/ws\<close> with given files and editor, where every
  file that exists can be read.
\<close>

definition sandboxHost :: "(uri \<Rightarrow> bytes option) \<Rightarrow> TextEditor option \<Rightarrow> host" where
  "sandboxHost fs editor =
     \<lparr>activeTextEditor = editor, workspaceFolders = [js ''/ws''], files = fs,
      readErrors = (\<lambda>u. False), fsCalls = []\<rparr>"

definition twoCursors :: TextEditor where
  "twoCursors = \<lparr>selections = [(0, 0), (3, 1)], inserted = []\<rparr>"

text \<open>
  A line as the clean-up of the stripper leaves it: not empty, without a line feed, and
  ending with a visible code unit.
\<close>

definition cleanLine :: "jsstring \<Rightarrow> bool" where
  "cleanLine l \<longleftrightarrow> l \<noteq> [] \<and> 10 \<notin> set l \<and> \<not> isWhiteSpace (last l)"

text \<open>
  Notions for stating what the passes of the stripper do: \<open>occursIn pat s\<close>, the pattern
  occurs in the text; \<open>lineStart p\<close>, a position whose preceding code unit \<open>p\<close> makes it the
  start of a line; \<open>before p u\<close>, the code unit before the position reached by reading \<open>u\<close>
  from a position after \<open>p\<close>.
\<close>

fun occursIn :: "jsstring \<Rightarrow> jsstring \<Rightarrow> bool" where
  "occursIn pat [] = (pat = [])"
| "occursIn pat (x # xs) = (startsWith (x # xs) pat \<or> occursIn pat xs)"


definition before :: "jschar option \<Rightarrow> jsstring \<Rightarrow> jschar option" where
  "before p u = (if u = [] then p else Some (last u))"

text \<open>
  The lines in the words of the specification: a blank line holds white space only; a
  comment line is a line whose content after its leading white space starts with \<open>//\<close>,
  or with \<open>#\<close> that is not followed by \<open>!\<close>.
\<close>

definition blankLine :: "jsstring \<Rightarrow> bool" where
  "blankLine l \<longleftrightarrow> trim l = []"



text \<open>
  \<open>afterComment C ls\<close>: when the lines \<open>ls\<close> start with blank lines followed by a line that
  satisfies \<open>C\<close>, the lines after that line.
\<close>

fun afterComment :: "(jsstring \<Rightarrow> bool) \<Rightarrow> jsstring list \<Rightarrow> jsstring list option" where
  "afterComment C [] = None"
| "afterComment C (l # ls) =
     (if C l then Some ls else if blankLine l then afterComment C ls else None)"

text \<open>
  The segments of a path in the words of the specification: the pieces between slashes
  and backslashes that are not empty.
\<close>

fun splitSlashes :: "jsstring \<Rightarrow> jsstring \<Rightarrow> jsstring list" where
  "splitSlashes acc [] = [acc]"
| "splitSlashes acc (x # xs) =
     (if isSlash x then acc # splitSlashes [] xs else splitSlashes (acc @ [x]) xs)"

definition segmentsOf :: "jsstring \<Rightarrow> jsstring list" where
  "segmentsOf p = filter (\<lambda>s. s \<noteq> []) (splitSlashes [] p)"

section \<open>Evaluation on literals\<close>

lemmas string_eval =
  js_def indexOf_def lastIndexOf_def startsWith_def endsWith_def slice_def
  trim_def trimStart_def trimEnd_def isWhiteSpace_def isLineTerminator_def
  anyChar_def dotChar_def

lemma unwrapCodeFence_unfold:
  "unwrapCodeFence text =
     (if text = [] then []
      else if indexOf text (js ''```'') \<noteq> - 1 \<and> lastIndexOf text (js ''```'') \<noteq> - 1
              \<and> lastIndexOf text (js ''```'') > indexOf text (js ''```'')
           then trim (replaceFirst languageLine None
                  (slice text (indexOf text (js ''```'') + 3) (lastIndexOf text (js ''```''))))
           else trim text)"
  by (simp add: unwrapCodeFence_def Let_def js_def)

lemmas fence_eval = unwrapCodeFence_unfold languageLine_def isTagChar_def

lemmas strip_eval =
  stripComments_def cleanUp_def removeComments_def htmlComment_def blockComment_def
  slashLine_def hashLine_def lineBreak_def trailingSpace_def stripCommentsLib_def


lemmas path_eval =
  pathSegmentsOf_def sanitizeFilePath_def leadingSlashes_def slashRun_def isSlash_def
  posixJoinPath_def posixNormalize_def Let_def

lemma parseModelAction_unfold:
  "parseModelAction parse responseText =
     (if trim responseText = [] then None
      else if indexOf (trim responseText) [123] = - 1 \<or> lastIndexOf (trim responseText) [125] = - 1
              \<or> lastIndexOf (trim responseText) [125] \<le> indexOf (trim responseText) [123]
           then None
           else case parse (slice (trim responseText) (indexOf (trim responseText) [123])
                             (lastIndexOf (trim responseText) [125] + 1)) of
                  None \<Rightarrow> None
                | Some parsedObject \<Rightarrow>
                    (case getProp parsedObject (js ''action'') of
                       Some (JString actionType) \<Rightarrow>
                         if actionType \<in> set validActions
                         then Some \<lparr>action = actionType,
                                    path = stringProp parsedObject (js ''path''),
                                    content = stringProp parsedObject (js ''content'')\<rparr>
                         else None
                     | _ \<Rightarrow> None))"
  by (simp add: parseModelAction_def Let_def)

lemmas parse_numeral =
  parseValue.simps(2) [of "pred_numeral k", folded numeral_eq_Suc]
  parseElements.simps(2) [of "pred_numeral k", folded numeral_eq_Suc]
  parseMembers.simps(2) [of "pred_numeral k", folded numeral_eq_Suc]
  for k

lemmas json_eval =
  JSONparse_def parse_numeral skipWs_def isJsonSpace_def isDigit_def hexVal_def
  parseInt_def parseFrac_def parseExp_def parseNumber_def validActions_def

section \<open>Inserting code\<close>

lemma endsWith_single: "endsWith s [c] \<longleftrightarrow> s \<noteq> [] \<and> last s = c"
  by (cases s rule: rev_cases) (simp_all add: endsWith_def startsWith_def)

lemma trim_last: "trim t \<noteq> [] \<Longrightarrow> \<not> isWhiteSpace (last (trim t))"
  unfolding trim_def trimEnd_def
  by (simp add: last_rev hd_dropWhile)

lemma stripComments_last:
  "stripComments x \<noteq> [] \<Longrightarrow> \<not> isWhiteSpace (last (stripComments x))"
  by (auto simp: stripComments_def cleanUp_def trim_last split: if_splits)

lemma stripComments_no_newline_end: "\<not> endsWith (stripComments x) [10]"
  using stripComments_last [of x] by (auto simp: endsWith_single isWhiteSpace_def)

text \<open>
  C9: an \<open>insert_code\<close> action with an active editor. With \<open>c\<close> the content after the
  unwrapper and the stripper: if \<open>c\<close> is empty the empty-content outcome is reported and
  the host is unchanged; otherwise every cursor receives the same text, \<open>c\<close> followed by
  one newline, and \<open>c\<close> itself never ends with a newline, so the newline is never doubled.
\<close>

theorem insert_code_exactly_one_newline:
  assumes "action a = js ''insert_code''"
    and "activeTextEditor h = Some editor"
  shows "let c = stripComments (unwrapCodeFence (case content a of None \<Rightarrow> [] | Some t \<Rightarrow> t))
         in executeModelAction joinPath h a =
              (if c = [] then (NoCodeContent, h)
               else (InsertedCode (length c),
                     h\<lparr>activeTextEditor := Some (editor\<lparr>inserted :=
                        inserted editor
                          @ map (\<lambda>selection. (selection, c @ [10])) (selections editor)\<rparr>)\<rparr>))
            \<and> \<not> endsWith c [10]"
  using assms
  by (simp add: executeModelAction_def handleCodeInsertion_def insertTextAtCursors_def
      Let_def stripComments_no_newline_end)

theorem insert_code_exactly_one_newline_witness:
  \<open>executeModelAction posixJoinPath (sandboxHost (\<lambda>u. None) (Some twoCursors))
      \<lparr>action = js ''insert_code'', path = None,
       content = Some (js ''```ts\<newline>// add\<newline>let a = 5;  \<newline>```'')\<rparr>
    = (InsertedCode 10,
       sandboxHost (\<lambda>u. None)
         (Some \<lparr>selections = [(0, 0), (3, 1)],
                inserted = [((0, 0), js ''let a = 5;\<newline>''), ((3, 1), js ''let a = 5;\<newline>'')]\<rparr>))
   \<and> executeModelAction posixJoinPath (sandboxHost (\<lambda>u. None) (Some twoCursors))
      \<lparr>action = js ''insert_code'', path = None, content = Some (js ''// only a comment'')\<rparr>
    = (NoCodeContent, sandboxHost (\<lambda>u. None) (Some twoCursors))\<close>
proof -
  have c1: \<open>stripComments (unwrapCodeFence (js ''```ts\<newline>// add\<newline>let a = 5;  \<newline>```''))
              = js ''let a = 5;''\<close>
    by (simp add: fence_eval strip_eval string_eval)
  have c2: \<open>stripComments (unwrapCodeFence (js ''// only a comment'')) = []\<close>
    by (simp add: fence_eval strip_eval string_eval)
  have ed: "activeTextEditor (sandboxHost (\<lambda>u. None) (Some twoCursors)) = Some twoCursors"
    by (simp add: sandboxHost_def)
  show ?thesis
    using insert_code_exactly_one_newline [OF _ ed, where joinPath = posixJoinPath and
        a = \<open>\<lparr>action = js ''insert_code'', path = None,
              content = Some (js ''```ts\<newline>// add\<newline>let a = 5;  \<newline>```'')\<rparr>\<close>]
      insert_code_exactly_one_newline [OF _ ed, where joinPath = posixJoinPath and
        a = \<open>\<lparr>action = js ''insert_code'', path = None,
              content = Some (js ''// only a comment'')\<rparr>\<close>]
    by (simp add: c1 c2 Let_def) (simp add: sandboxHost_def twoCursors_def js_def)
qed

section \<open>File operations\<close>

lemma rmatch_Star_end:
  "rmatch [Star P] p s =
     Some (if takeWhile P s = [] then p else Some (last (takeWhile P s)), dropWhile P s)"
  by (induction s arbitrary: p) auto

lemma replaceFirst_Bol_later: "replaceFirst (Bol # r) (Some c) s = s"
  by (induction s arbitrary: c) auto

lemma sanitizeFilePath_dropWhile: "sanitizeFilePath p = dropWhile isSlash p"
  by (cases p)
    (auto simp: sanitizeFilePath_def leadingSlashes_def rmatch_Star_end replaceFirst_Bol_later)

lemma pathSegmentsOf_slashes:
  assumes "\<forall>c \<in> set p. isSlash c"
  shows "pathSegmentsOf p = []"
proof -
  have "sanitizeFilePath p = []"
    using assms by (simp add: sanitizeFilePath_dropWhile)
  then show ?thesis by (simp add: pathSegmentsOf_def)
qed

lemma splitSlashes_leading:
  "filter (\<lambda>s. s \<noteq> []) (splitSlashes [] (dropWhile isSlash xs))
     = filter (\<lambda>s. s \<noteq> []) (splitSlashes [] xs)"
  by (induction xs) auto

lemma splitRe_slashRun:
  "filter (\<lambda>s. s \<noteq> []) (splitRe slashRun q acc s)
     = filter (\<lambda>s. s \<noteq> []) (splitSlashes acc s)"
proof (induction s arbitrary: q acc rule: length_induct)
  case (1 s)
  show ?case
  proof (cases s)
    case Nil
    then show ?thesis by simp
  next
    case (Cons x xs)
    show ?thesis
    proof (cases "isSlash x")
      case True
      have m: "rmatch slashRun q (x # xs)
                 = Some (if takeWhile isSlash xs = [] then Some x
                         else Some (last (takeWhile isSlash xs)), dropWhile isSlash xs)"
        using True by (simp add: slashRun_def rmatch_Star_end)
      have len: "length (dropWhile isSlash xs) < length s"
        using Cons length_dropWhile_le [of isSlash xs] by simp
      have "filter (\<lambda>s. s \<noteq> []) (splitRe slashRun q' [] (dropWhile isSlash xs))
              = filter (\<lambda>s. s \<noteq> []) (splitSlashes [] xs)" for q'
        using 1 len by (simp add: splitSlashes_leading)
      then show ?thesis
        using True m len Cons by simp
    next
      case False
      then have "rmatch slashRun q (x # xs) = None"
        by (simp add: slashRun_def)
      then show ?thesis
        using False Cons 1 by simp
    qed
  qed
qed

lemma pathSegmentsOf_segmentsOf: "pathSegmentsOf p = segmentsOf p"
  by (simp add: pathSegmentsOf_def segmentsOf_def sanitizeFilePath_dropWhile
      splitRe_slashRun splitSlashes_leading)

lemma root_not_within_itself:
  "\<not> endsWith root [47] \<Longrightarrow> \<not> isPathWithinWorkspace root root"
  by (simp add: isPathWithinWorkspace_def startsWith_def)

lemma handleFileOperation_refuses:
  assumes "workspaceFolders h = workspaceRoot # others"
    and "path a = Some p" and "p \<noteq> []"
    and "\<not> isPathWithinWorkspace (joinPath workspaceRoot (pathSegmentsOf p)) workspaceRoot"
  shows "handleFileOperation joinPath h a = (RefusedOutsideWorkspace, h)"
  using assms by (simp add: handleFileOperation_def Let_def)




text \<open>The decoder reads back what the encoder wrote for a well-formed text.\<close>

lemma decodeFrom_start: "decodeFrom 0 cp lo hi bs = decodeFrom 0 0 128 191 bs"
  by (cases bs) simp_all
























text \<open>
  C1 (amended): the segments that the executor computes from a path are the pieces
  between slashes and backslashes that are not empty. A file action, in an open
  workspace, whose target (these segments joined onto the workspace root) does not start
  with the root's path closed by a separator, is refused before any I/O: the host, its files and the record of
  its file-system calls are unchanged, so neither a write nor a create-directory call is
  made. The outcome reported is the path escape for every path that is not empty, and the
  missing path for the empty one.
\<close>

theorem path_escape_refused_before_io:
  assumes "action a = js ''create_file'' \<or> action a = js ''append_file''"
    and "workspaceFolders h = workspaceRoot # others"
    and "path a = Some p"
    and "\<not> startsWith (joinPath workspaceRoot (segmentsOf p))
             (if endsWith workspaceRoot [47] then workspaceRoot else workspaceRoot @ [47])"
  shows "pathSegmentsOf p = segmentsOf p
         \<and> executeModelAction joinPath h a
           = (if p = [] then NoFilePath else RefusedOutsideWorkspace, h)
         \<and> filter isWrite (fsCalls (snd (executeModelAction joinPath h a)))
             = filter isWrite (fsCalls h)
         \<and> filter isCreateDirectory (fsCalls (snd (executeModelAction joinPath h a)))
             = filter isCreateDirectory (fsCalls h)"
proof -
  have kind: "action a \<noteq> js ''insert_code''"
    using assms(1) by (auto simp: js_def)
  have outside:
    "\<not> isPathWithinWorkspace (joinPath workspaceRoot (pathSegmentsOf p)) workspaceRoot"
    using assms(4) by (simp add: isPathWithinWorkspace_def pathSegmentsOf_segmentsOf)
  show ?thesis
  proof (cases "p = []")
    case True
    then show ?thesis
      using kind assms(2,3)
      by (simp add: executeModelAction_def handleFileOperation_def pathSegmentsOf_segmentsOf)
  next
    case False
    then show ?thesis
      using kind outside assms(2,3)
      by (simp add: executeModelAction_def handleFileOperation_refuses
          pathSegmentsOf_segmentsOf)
  qed
qed

theorem path_escape_refused_before_io_witness:
  \<open>\<not> startsWith (posixJoinPath (js ''/ws'') (segmentsOf (js ''../etc/passwd''))) (js ''/ws/'')
   \<and> executeModelAction posixJoinPath (sandboxHost (\<lambda>u. None) None)
        \<lparr>action = js ''create_file'', path = Some (js ''../etc/passwd''), content = Some (js ''x'')\<rparr>
      = (RefusedOutsideWorkspace, sandboxHost (\<lambda>u. None) None)
   \<and> filter isWrite (fsCalls (snd (executeModelAction posixJoinPath (sandboxHost (\<lambda>u. None) None)
        \<lparr>action = js ''create_file'', path = Some (js ''../etc/passwd''),
         content = Some (js ''x'')\<rparr>))) = []\<close>
proof -
  have segs: \<open>segmentsOf (js ''../etc/passwd'') = [js ''..'', js ''etc'', js ''passwd'']\<close>
    by (simp add: segmentsOf_def isSlash_def js_def)
  have target: \<open>posixJoinPath (js ''/ws'') [js ''..'', js ''etc'', js ''passwd''] = js ''/etc/passwd''\<close>
    by (simp add: path_eval js_def)
  have outside: \<open>\<not> startsWith (posixJoinPath (js ''/ws'') (segmentsOf (js ''../etc/passwd'')))
                    (if endsWith (js ''/ws'') [47] then js ''/ws'' else js ''/ws'' @ [47])\<close>
    by (simp add: segs target) (simp add: string_eval)
  have ws: "workspaceFolders (sandboxHost (\<lambda>u. None) None) = js ''/ws'' # []"
    by (simp add: sandboxHost_def)
  have calls: "fsCalls (sandboxHost (\<lambda>u. None) None) = []"
    by (simp add: sandboxHost_def)
  have p: \<open>js ''../etc/passwd'' \<noteq> []\<close>
    by (simp add: js_def)
  from path_escape_refused_before_io [where joinPath = posixJoinPath and
      a = \<open>\<lparr>action = js ''create_file'', path = Some (js ''../etc/passwd''),
            content = Some (js ''x'')\<rparr>\<close>, OF _ ws _ outside] p
  have \<open>executeModelAction posixJoinPath (sandboxHost (\<lambda>u. None) None)
          \<lparr>action = js ''create_file'', path = Some (js ''../etc/passwd''), content = Some (js ''x'')\<rparr>
        = (RefusedOutsideWorkspace, sandboxHost (\<lambda>u. None) None)\<close>
    by simp
  moreover have \<open>\<not> startsWith (posixJoinPath (js ''/ws'') (segmentsOf (js ''../etc/passwd'')))
                     (js ''/ws/'')\<close>
    by (simp add: segs target) (simp add: string_eval)
  ultimately show ?thesis by (simp add: calls)
qed

theorem path_escape_empty_path_counterexample:
  \<open>\<not> startsWith (posixJoinPath (js ''/ws'') (segmentsOf [])) (js ''/ws/'')
   \<and> executeModelAction posixJoinPath (sandboxHost (\<lambda>u. None) None)
        \<lparr>action = js ''create_file'', path = Some [], content = Some (js ''x'')\<rparr>
      = (NoFilePath, sandboxHost (\<lambda>u. None) None)
   \<and> NoFilePath \<noteq> RefusedOutsideWorkspace\<close>
proof -
  have \<open>segmentsOf [] = []\<close>
    by (simp add: segmentsOf_def)
  moreover have \<open>posixJoinPath (js ''/ws'') [] = js ''/ws''\<close>
    by (simp add: path_eval js_def)
  moreover have \<open>\<not> startsWith (js ''/ws'') (js ''/ws/'')\<close>
    by (simp add: string_eval)
  moreover have \<open>js ''create_file'' \<noteq> js ''insert_code''\<close>
    by (simp add: js_def)
  ultimately show ?thesis
    by (simp add: executeModelAction_def handleFileOperation_def sandboxHost_def)
qed

text \<open>
  C10: a file action whose path is not empty and holds only slashes and backslashes has
  no segment left after sanitizing; with a join that returns the root for no segments and
  a root whose path does not end with a separator, the executor refuses with the
  path-escape outcome and leaves the host unchanged: no write is made.
\<close>

theorem slash_only_path_refused:
  assumes "action a = js ''create_file'' \<or> action a = js ''append_file''"
    and "workspaceFolders h = workspaceRoot # others"
    and "path a = Some p" and "p \<noteq> []" and "\<forall>c \<in> set p. c = 47 \<or> c = 92"
    and "joinPath workspaceRoot [] = workspaceRoot"
    and "\<not> endsWith workspaceRoot [47]"
  shows "pathSegmentsOf p = []
         \<and> joinPath workspaceRoot (pathSegmentsOf p) = workspaceRoot
         \<and> executeModelAction joinPath h a = (RefusedOutsideWorkspace, h)
         \<and> filter isWrite (fsCalls (snd (executeModelAction joinPath h a)))
             = filter isWrite (fsCalls h)"
proof -
  have segs: "pathSegmentsOf p = []"
    using assms(5) by (intro pathSegmentsOf_slashes) (simp add: isSlash_def)
  have "action a \<noteq> js ''insert_code''"
    using assms(1) by (auto simp: js_def)
  moreover have
    "\<not> isPathWithinWorkspace (joinPath workspaceRoot (pathSegmentsOf p)) workspaceRoot"
    using assms(6,7) by (simp add: segs root_not_within_itself)
  ultimately show ?thesis
    using assms(2-4,6) segs by (simp add: executeModelAction_def handleFileOperation_refuses)
qed

theorem slash_only_path_refused_witness:
  \<open>pathSegmentsOf (js ''//'' @ [92]) = []
   \<and> posixJoinPath (js ''/ws'') (pathSegmentsOf (js ''//'' @ [92])) = js ''/ws''
   \<and> executeModelAction posixJoinPath (sandboxHost (\<lambda>u. None) None)
        \<lparr>action = js ''append_file'', path = Some (js ''//'' @ [92]), content = Some (js ''x'')\<rparr>
      = (RefusedOutsideWorkspace, sandboxHost (\<lambda>u. None) None)\<close>
proof -
  have ws: "workspaceFolders (sandboxHost (\<lambda>u. None) None) = js ''/ws'' # []"
    by (simp add: sandboxHost_def)
  have p: \<open>js ''//'' @ [92] \<noteq> []\<close> \<open>\<forall>c \<in> set (js ''//'' @ [92]). c = 47 \<or> c = 92\<close>
    by (simp_all add: js_def)
  have root: \<open>posixJoinPath (js ''/ws'') [] = js ''/ws''\<close>
    by (simp add: path_eval js_def)
  have sep: \<open>\<not> endsWith (js ''/ws'') [47]\<close>
    by (simp add: string_eval)
  from slash_only_path_refused [where joinPath = posixJoinPath and
      a = \<open>\<lparr>action = js ''append_file'', path = Some (js ''//'' @ [92]),
            content = Some (js ''x'')\<rparr>\<close>, OF _ ws _ p root sep]
  show ?thesis by (simp add: root)
qed




text \<open>
  C2: the pipeline on a response. When the parser finds no action the response is handled
  as code: no file is touched, and with an active editor the text given to the cursors is
  the response after the unwrapper and the stripper (nothing is inserted when it is
  empty). When the parser returns an action, that action is what the executor receives.
\<close>

theorem response_routing:
  "(parseModelAction parse raw = None \<longrightarrow>
      handleUserPrompt parse joinPath h raw = insertCodeResponse h raw
      \<and> files (snd (handleUserPrompt parse joinPath h raw)) = files h
      \<and> fsCalls (snd (handleUserPrompt parse joinPath h raw)) = fsCalls h
      \<and> (\<forall>editor. activeTextEditor h = Some editor \<longrightarrow>
            (let t = stripComments (unwrapCodeFence raw)
             in handleUserPrompt parse joinPath h raw =
                  (if t = [] then (NoCodeContent, h)
                   else (InsertedCode (length t),
                         h\<lparr>activeTextEditor := Some (insertTextAtCursors editor t)\<rparr>)))))
   \<and> (\<forall>a. parseModelAction parse raw = Some a \<longrightarrow>
         handleUserPrompt parse joinPath h raw = executeModelAction joinPath h a)"
  by (auto simp: handleUserPrompt_def insertCodeResponse_def Let_def split: option.splits)

theorem response_routing_witness:
  \<open>parseModelAction JSONparse (js ''```ts\<newline>let a = 5;\<newline>```'') = None
   \<and> handleUserPrompt JSONparse posixJoinPath (sandboxHost (\<lambda>u. None) (Some twoCursors))
        (js ''```ts\<newline>let a = 5;\<newline>```'')
      = (InsertedCode 10,
         sandboxHost (\<lambda>u. None)
           (Some (insertTextAtCursors twoCursors (js ''let a = 5;''))))
   \<and> handleUserPrompt JSONparse posixJoinPath (sandboxHost (\<lambda>u. None) (Some twoCursors))
        (js ''ok {"action":"insert_code","content":"let a=5;"}'')
      = executeModelAction posixJoinPath (sandboxHost (\<lambda>u. None) (Some twoCursors))
          \<lparr>action = js ''insert_code'', path = None, content = Some (js ''let a=5;'')\<rparr>\<close>
proof -
  have none: \<open>parseModelAction JSONparse (js ''```ts\<newline>let a = 5;\<newline>```'') = None\<close>
    by (simp add: parseModelAction_unfold json_eval string_eval)
  have some: \<open>parseModelAction JSONparse (js ''ok {"action":"insert_code","content":"let a=5;"}'')
                = Some \<lparr>action = js ''insert_code'', path = None, content = Some (js ''let a=5;'')\<rparr>\<close>
    by (simp add: parseModelAction_unfold json_eval string_eval)
  have clean: \<open>stripComments (unwrapCodeFence (js ''```ts\<newline>let a = 5;\<newline>```'')) = js ''let a = 5;''\<close>
    by (simp add: fence_eval strip_eval string_eval)
  have len: \<open>length (js ''let a = 5;'') = 10\<close> \<open>js ''let a = 5;'' \<noteq> []\<close>
    by (simp_all add: js_def)
  have ed: "activeTextEditor (sandboxHost (\<lambda>u. None) (Some twoCursors)) = Some twoCursors"
    by (simp add: sandboxHost_def)
  have upd: "\<And>e. (sandboxHost (\<lambda>u. None) (Some twoCursors))\<lparr>activeTextEditor := Some e\<rparr>
               = sandboxHost (\<lambda>u. None) (Some e)"
    by (simp add: sandboxHost_def)
  have \<open>\<forall>editor. activeTextEditor (sandboxHost (\<lambda>u. None) (Some twoCursors)) = Some editor \<longrightarrow>
          (let t = stripComments (unwrapCodeFence (js ''```ts\<newline>let a = 5;\<newline>```''))
           in handleUserPrompt JSONparse posixJoinPath (sandboxHost (\<lambda>u. None) (Some twoCursors))
                (js ''```ts\<newline>let a = 5;\<newline>```'') =
                (if t = [] then (NoCodeContent, sandboxHost (\<lambda>u. None) (Some twoCursors))
                 else (InsertedCode (length t),
                       (sandboxHost (\<lambda>u. None) (Some twoCursors))
                         \<lparr>activeTextEditor := Some (insertTextAtCursors editor t)\<rparr>)))\<close>
    using response_routing [of JSONparse \<open>js ''```ts\<newline>let a = 5;\<newline>```''\<close> posixJoinPath
        \<open>sandboxHost (\<lambda>u. None) (Some twoCursors)\<close>] none
    by blast
  with ed have r1: \<open>handleUserPrompt JSONparse posixJoinPath (sandboxHost (\<lambda>u. None) (Some twoCursors))
               (js ''```ts\<newline>let a = 5;\<newline>```'')
             = (InsertedCode 10,
                sandboxHost (\<lambda>u. None) (Some (insertTextAtCursors twoCursors (js ''let a = 5;''))))\<close>
    by (simp add: clean len upd Let_def)
  have r2: \<open>handleUserPrompt JSONparse posixJoinPath (sandboxHost (\<lambda>u. None) (Some twoCursors))
               (js ''ok {"action":"insert_code","content":"let a=5;"}'')
             = executeModelAction posixJoinPath (sandboxHost (\<lambda>u. None) (Some twoCursors))
                 \<lparr>action = js ''insert_code'', path = None, content = Some (js ''let a=5;'')\<rparr>\<close>
    using response_routing [of JSONparse \<open>js ''ok {"action":"insert_code","content":"let a=5;"}''\<close>
        posixJoinPath \<open>sandboxHost (\<lambda>u. None) (Some twoCursors)\<close>] some
    by simp
  show ?thesis
    using none r1 r2 by simp
qed

section \<open>The action parser\<close>

lemma indexOfFrom_absent: "c \<notin> set u \<Longrightarrow> indexOfFrom [c] u i = - 1"
  by (induction u arbitrary: i) (auto simp: startsWith_def)

lemma indexOfFrom_first:
  "c \<notin> set u \<Longrightarrow> indexOfFrom [c] (u @ c # v) i = i + int (length u)"
  by (induction u arbitrary: i) (auto simp: startsWith_def)

lemma lastIndexOfFrom_absent: "c \<notin> set v \<Longrightarrow> lastIndexOfFrom [c] v i = - 1"
  by (induction v arbitrary: i) (auto simp: startsWith_def Let_def)

lemma lastIndexOfFrom_last:
  "c \<notin> set v \<Longrightarrow> 0 \<le> i \<Longrightarrow> lastIndexOfFrom [c] (u @ c # v) i = i + int (length u)"
  by (induction u arbitrary: i) (auto simp: startsWith_def Let_def lastIndexOfFrom_absent)

lemma slice_middle:
  "slice (u @ j @ v) (int (length u)) (int (length u) + int (length j)) = j"
proof (cases "j = []")
  case True
  then show ?thesis by (simp add: slice_def Let_def)
next
  case False
  have "nat (int (length u) + int (length j) - int (length u)) = length j"
    by simp
  moreover have "min (int (length u) + int (length j)) (int (length (u @ j @ v)))
                   = int (length u) + int (length j)"
    by simp
  moreover have "min (int (length u)) (int (length (u @ j @ v))) = int (length u)"
    by simp
  ultimately show ?thesis
    using False unfolding slice_def Let_def by simp
qed

text \<open>What \<open>trim\<close> does to a text whose middle part starts and ends with a visible character.\<close>

lemma trim_around:
  assumes "j \<noteq> []" and "\<not> isWhiteSpace (hd j)" and "\<not> isWhiteSpace (last j)"
  shows "trim (p @ j @ s) = trimStart p @ j @ trimEnd s"
proof -
  have 1: "dropWhile isWhiteSpace (p @ j @ s) = dropWhile isWhiteSpace p @ j @ s"
    using assms(1,2) by (cases j) (auto simp: dropWhile_append)
  have 2: "dropWhile isWhiteSpace (rev s @ rev j @ u) = dropWhile isWhiteSpace (rev s) @ rev j @ u" for u
    using assms(1,3) by (cases j rule: rev_cases) (auto simp: dropWhile_append)
  show ?thesis
    by (simp add: trim_def trimStart_def trimEnd_def 1 2)
qed

lemma set_trimStart: "set (trimStart p) \<subseteq> set p"
  unfolding trimStart_def by (simp add: set_dropWhileD subsetI)

lemma set_trimEnd: "set (trimEnd s) \<subseteq> set s"
  unfolding trimEnd_def using set_dropWhileD [of _ isWhiteSpace "rev s"] by auto

lemma lastIndexOfFrom_prefix:
  "c \<notin> set w \<Longrightarrow> lastIndexOfFrom [c] (u @ w) i = lastIndexOfFrom [c] u i"
  by (induction u arbitrary: i) (simp_all add: lastIndexOfFrom_absent startsWith_def Let_def)

lemma lastIndexOfFrom_bound:
  "0 \<le> i \<Longrightarrow> lastIndexOfFrom [c] u i < i + int (length u)"
proof (induction u arbitrary: i)
  case Nil
  then show ?case by simp
next
  case (Cons x u)
  have "lastIndexOfFrom [c] u (i + 1) < i + 1 + int (length u)"
    using Cons.prems by (intro Cons.IH) simp
  then show ?case
    using Cons.prems by (simp add: Let_def)
qed

text \<open>
  The candidate of the parser: for a trimmed text with a \<open>}\<close> after its first \<open>{\<close>, the
  text from the first \<open>{\<close> to the last \<open>}\<close>.
\<close>

lemma candidate_between_braces:
  assumes "t = u @ 123 # k @ 125 # v" and "123 \<notin> set u" and "125 \<notin> set v"
  shows "indexOf t [123] = int (length u)"
    and "lastIndexOf t [125] = int (length u) + int (length k) + 1"
    and "slice t (indexOf t [123]) (lastIndexOf t [125] + 1) = 123 # k @ [125]"
proof -
  show first: "indexOf t [123] = int (length u)"
    unfolding assms(1) indexOf_def
    using indexOfFrom_first [OF assms(2), of "k @ 125 # v" 0] by simp
  have "lastIndexOfFrom [125] ((u @ 123 # k) @ 125 # v) 0 = 0 + int (length (u @ 123 # k))"
    by (rule lastIndexOfFrom_last [OF assms(3)]) simp
  then show last: "lastIndexOf t [125] = int (length u) + int (length k) + 1"
    unfolding assms(1) lastIndexOf_def by simp
  have "slice (u @ (123 # k @ [125]) @ v) (int (length u))
          (int (length u) + int (length (123 # k @ [125]))) = 123 # k @ [125]"
    by (rule slice_middle)
  then have "slice t (int (length u)) (int (length u) + int (length k) + 1 + 1) = 123 # k @ [125]"
    unfolding assms(1) by (simp add: add.commute add.left_commute)
  then show "slice t (indexOf t [123]) (lastIndexOf t [125] + 1) = 123 # k @ [125]"
    by (simp only: first last)
qed

lemma parseModelAction_braces:
  assumes "trim text = u @ 123 # k @ 125 # v" and "123 \<notin> set u" and "125 \<notin> set v"
  shows "parseModelAction parse text =
           (case parse (123 # k @ [125]) of
              None \<Rightarrow> None
            | Some parsedObject \<Rightarrow>
                (case getProp parsedObject (js ''action'') of
                   Some (JString actionType) \<Rightarrow>
                     if actionType \<in> set validActions
                     then Some \<lparr>action = actionType,
                                path = stringProp parsedObject (js ''path''),
                                content = stringProp parsedObject (js ''content'')\<rparr>
                     else None
                 | _ \<Rightarrow> None))"
proof -
  note c = candidate_between_braces [OF assms]
  have ne: "trim text \<noteq> []"
    unfolding assms(1) by simp
  show ?thesis
    unfolding parseModelAction_unfold c(3) using ne c(1,2) by simp
qed

lemma parseModelAction_no_closing_brace:
  assumes "trim text = u @ 123 # w" and "123 \<notin> set u" and "125 \<notin> set w"
  shows "parseModelAction parse text = None"
proof -
  have first: "indexOf (trim text) [123] = int (length u)"
    unfolding assms(1) indexOf_def using indexOfFrom_first [OF assms(2), of w 0] by simp
  have "125 \<notin> set (123 # w)"
    using assms(3) by simp
  then have "lastIndexOfFrom [125] (u @ 123 # w) 0 = lastIndexOfFrom [125] u 0"
    by (rule lastIndexOfFrom_prefix)
  moreover have "lastIndexOfFrom [125] u 0 < 0 + int (length u)"
    by (rule lastIndexOfFrom_bound) simp
  ultimately have "lastIndexOf (trim text) [125] < int (length u)"
    unfolding assms(1) lastIndexOf_def by simp
  then show ?thesis
    unfolding parseModelAction_unfold first by simp
qed

lemma parseModelAction_embedded:
  assumes "j = 123 # k @ [125]" and "123 \<notin> set p" and "125 \<notin> set s"
  shows "parseModelAction parse (p @ j @ s) =
           (case parse j of
              None \<Rightarrow> None
            | Some parsedObject \<Rightarrow>
                (case getProp parsedObject (js ''action'') of
                   Some (JString actionType) \<Rightarrow>
                     if actionType \<in> set validActions
                     then Some \<lparr>action = actionType,
                                path = stringProp parsedObject (js ''path''),
                                content = stringProp parsedObject (js ''content'')\<rparr>
                     else None
                 | _ \<Rightarrow> None))"
proof -
  have j: "j \<noteq> []" "\<not> isWhiteSpace (hd j)" "\<not> isWhiteSpace (last j)"
    using assms(1) by (simp_all add: isWhiteSpace_def)
  have t: "trim (p @ (123 # k @ [125]) @ s) = trimStart p @ 123 # k @ 125 # trimEnd s"
    using trim_around [OF j] assms(1) by simp
  have p': "123 \<notin> set (trimStart p)" and s': "125 \<notin> set (trimEnd s)"
    using assms(2,3) set_trimStart [of p] set_trimEnd [of s] by auto
  show ?thesis
    unfolding assms(1) by (rule parseModelAction_braces [OF t p' s'])
qed

text \<open>
  C3: \<open>parseModelAction\<close> is a total function, whatever the host's parser does: the
  exception of the parser is the value \<open>None\<close> of \<open>parse\<close>. For a text whose trimmed form
  has a \<open>}\<close> after its first \<open>{\<close>, the candidate is the text from the first \<open>{\<close> to the last
  \<open>}\<close>; when the parser returns an object for the candidate whose \<open>action\<close> is a string
  among the three supported kinds, the result is the action of that kind, with \<open>path\<close> and
  \<open>content\<close> present exactly when the object's property is a string, and with that string
  as value. The result is none in every other case: an empty text, a text without \<open>{\<close>,
  without \<open>}\<close> or with no \<open>}\<close> after the first \<open>{\<close>, a failure of the parser, an \<open>action\<close>
  that is absent or not a string, and an unsupported kind. So every action returned comes
  from a text with a \<open>}\<close> after its first \<open>{\<close> and is built from the parsed object in this
  way.
\<close>

theorem parseModelAction_never_raises:
  "let t = trim text;
       cand = slice t (indexOf t [123]) (lastIndexOf t [125] + 1);
       result = parseModelAction parse text
   in (\<forall>u k v. t = u @ 123 # k @ 125 # v \<and> 123 \<notin> set u \<and> 125 \<notin> set v \<longrightarrow>
          cand = 123 # k @ [125]
          \<and> (\<forall>obj kind. parse cand = Some obj
                \<and> getProp obj (js ''action'') = Some (JString kind)
                \<and> kind \<in> {js ''create_file'', js ''append_file'', js ''insert_code''} \<longrightarrow>
                result = Some \<lparr>action = kind,
                               path = (case getProp obj (js ''path'') of
                                         Some (JString x) \<Rightarrow> Some x | _ \<Rightarrow> None),
                               content = (case getProp obj (js ''content'') of
                                            Some (JString x) \<Rightarrow> Some x | _ \<Rightarrow> None)\<rparr>))
      \<and> (result = None
          \<or> (\<exists>a obj. result = Some a \<and> parse cand = Some obj
                \<and> getProp obj (js ''action'') = Some (JString (action a))
                \<and> action a \<in> {js ''create_file'', js ''append_file'', js ''insert_code''}
                \<and> (\<forall>x. path a = Some x \<longleftrightarrow> getProp obj (js ''path'') = Some (JString x))
                \<and> (\<forall>x. content a = Some x
                       \<longleftrightarrow> getProp obj (js ''content'') = Some (JString x))))
      \<and> (t = [] \<longrightarrow> result = None)
      \<and> (123 \<notin> set t \<longrightarrow> result = None)
      \<and> (125 \<notin> set t \<longrightarrow> result = None)
      \<and> (\<forall>u w. t = u @ 123 # w \<and> 123 \<notin> set u \<and> 125 \<notin> set w \<longrightarrow> result = None)
      \<and> (parse cand = None \<longrightarrow> result = None)
      \<and> (\<forall>obj. parse cand = Some obj
             \<longrightarrow> (\<forall>kind. getProp obj (js ''action'') \<noteq> Some (JString kind)) \<longrightarrow> result = None)
      \<and> (\<forall>obj kind. parse cand = Some obj \<longrightarrow> getProp obj (js ''action'') = Some (JString kind)
             \<longrightarrow> kind \<notin> {js ''create_file'', js ''append_file'', js ''insert_code''}
             \<longrightarrow> result = None)
      \<and> (result \<noteq> None \<longrightarrow>
            (\<exists>u k v. t = u @ 123 # k @ 125 # v \<and> 123 \<notin> set u \<and> 125 \<notin> set v))"
proof -
  define cand where
    "cand = slice (trim text) (indexOf (trim text) [123]) (lastIndexOf (trim text) [125] + 1)"
  have no_open: "123 \<notin> set (trim text) \<Longrightarrow> parseModelAction parse text = None"
    by (simp add: parseModelAction_unfold indexOf_def indexOfFrom_absent)
  have no_close: "125 \<notin> set (trim text) \<Longrightarrow> parseModelAction parse text = None"
    by (simp add: parseModelAction_unfold lastIndexOf_def lastIndexOfFrom_absent)
  have str: "(stringProp obj k = Some x) = (getProp obj k = Some (JString x))" for obj k x
    by (auto split: option.splits json.splits)
  have built: "parseModelAction parse text = None
       \<or> (\<exists>a obj. parseModelAction parse text = Some a \<and> parse cand = Some obj
             \<and> getProp obj (js ''action'') = Some (JString (action a))
             \<and> action a \<in> {js ''create_file'', js ''append_file'', js ''insert_code''}
             \<and> (\<forall>x. path a = Some x \<longleftrightarrow> getProp obj (js ''path'') = Some (JString x))
             \<and> (\<forall>x. content a = Some x \<longleftrightarrow> getProp obj (js ''content'') = Some (JString x)))"
    unfolding parseModelAction_unfold cand_def
    by (auto simp: validActions_def str split: option.splits json.splits)
  have rest: "parse cand = None \<Longrightarrow> parseModelAction parse text = None"
    "\<And>obj. parse cand = Some obj
       \<Longrightarrow> (\<forall>kind. getProp obj (js ''action'') \<noteq> Some (JString kind))
       \<Longrightarrow> parseModelAction parse text = None"
    "\<And>obj kind. parse cand = Some obj
       \<Longrightarrow> getProp obj (js ''action'') = Some (JString kind)
       \<Longrightarrow> kind \<notin> {js ''create_file'', js ''append_file'', js ''insert_code''}
       \<Longrightarrow> parseModelAction parse text = None"
    unfolding parseModelAction_unfold cand_def
    by (auto simp: validActions_def split: option.splits json.splits)
  have empty: "trim text = [] \<Longrightarrow> parseModelAction parse text = None"
    by (simp add: parseModelAction_unfold)
  have reversed: "parseModelAction parse text = None"
    if "trim text = u @ 123 # w" "123 \<notin> set u" "125 \<notin> set w" for u w
    using that by (rule parseModelAction_no_closing_brace)
  have candidate: "cand = 123 # k @ [125]"
    if "trim text = u @ 123 # k @ 125 # v" "123 \<notin> set u" "125 \<notin> set v" for u k v
    unfolding cand_def using that by (rule candidate_between_braces(3))
  have accepted: "parseModelAction parse text =
      Some \<lparr>action = kind,
             path = (case getProp obj (js ''path'') of Some (JString x) \<Rightarrow> Some x | _ \<Rightarrow> None),
             content = (case getProp obj (js ''content'') of
                          Some (JString x) \<Rightarrow> Some x | _ \<Rightarrow> None)\<rparr>"
    if "trim text = u @ 123 # k @ 125 # v" "123 \<notin> set u" "125 \<notin> set v"
      "parse cand = Some obj" "getProp obj (js ''action'') = Some (JString kind)"
      "kind \<in> {js ''create_file'', js ''append_file'', js ''insert_code''}" for u k v obj kind
  proof -
    have "parse (123 # k @ [125]) = Some obj"
      using candidate [OF that(1-3)] that(4) by simp
    then show ?thesis
      using that(5,6) unfolding parseModelAction_braces [OF that(1-3)]
      by (simp add: validActions_def)
  qed
  have first: "\<forall>u k v. trim text = u @ 123 # k @ 125 # v \<and> 123 \<notin> set u \<and> 125 \<notin> set v \<longrightarrow>
          cand = 123 # k @ [125]
          \<and> (\<forall>obj kind. parse cand = Some obj
                \<and> getProp obj (js ''action'') = Some (JString kind)
                \<and> kind \<in> {js ''create_file'', js ''append_file'', js ''insert_code''} \<longrightarrow>
                parseModelAction parse text
                  = Some \<lparr>action = kind,
                          path = (case getProp obj (js ''path'') of
                                    Some (JString x) \<Rightarrow> Some x | _ \<Rightarrow> None),
                          content = (case getProp obj (js ''content'') of
                                       Some (JString x) \<Rightarrow> Some x | _ \<Rightarrow> None)\<rparr>)"
  proof (intro allI impI conjI)
    fix u k v
    assume "trim text = u @ 123 # k @ 125 # v \<and> 123 \<notin> set u \<and> 125 \<notin> set v"
    then show "cand = 123 # k @ [125]"
      using candidate [of u k v] by simp
  next
    fix u k v obj kind
    assume braces: "trim text = u @ 123 # k @ 125 # v \<and> 123 \<notin> set u \<and> 125 \<notin> set v"
      and object: "parse cand = Some obj
                \<and> getProp obj (js ''action'') = Some (JString kind)
                \<and> kind \<in> {js ''create_file'', js ''append_file'', js ''insert_code''}"
    show "parseModelAction parse text
            = Some \<lparr>action = kind,
                    path = (case getProp obj (js ''path'') of
                              Some (JString x) \<Rightarrow> Some x | _ \<Rightarrow> None),
                    content = (case getProp obj (js ''content'') of
                                 Some (JString x) \<Rightarrow> Some x | _ \<Rightarrow> None)\<rparr>"
      by (rule accepted [of u k v obj kind]) (use braces object in simp_all)
  qed
  have n1: "trim text = [] \<longrightarrow> parseModelAction parse text = None"
    using empty by simp
  have n2: "123 \<notin> set (trim text) \<longrightarrow> parseModelAction parse text = None"
    using no_open by simp
  have n3: "125 \<notin> set (trim text) \<longrightarrow> parseModelAction parse text = None"
    using no_close by simp
  have n4: "\<forall>u w. trim text = u @ 123 # w \<and> 123 \<notin> set u \<and> 125 \<notin> set w \<longrightarrow>
              parseModelAction parse text = None"
    using reversed by blast
  have n5: "parse cand = None \<longrightarrow> parseModelAction parse text = None"
    using rest(1) by simp
  have n6: "\<forall>obj. parse cand = Some obj
             \<longrightarrow> (\<forall>kind. getProp obj (js ''action'') \<noteq> Some (JString kind))
             \<longrightarrow> parseModelAction parse text = None"
    using rest(2) by blast
  have n7: "\<forall>obj kind. parse cand = Some obj
             \<longrightarrow> getProp obj (js ''action'') = Some (JString kind)
             \<longrightarrow> kind \<notin> {js ''create_file'', js ''append_file'', js ''insert_code''}
             \<longrightarrow> parseModelAction parse text = None"
    using rest(3) by blast
  have n8: "parseModelAction parse text \<noteq> None \<longrightarrow>
              (\<exists>u k v. trim text = u @ 123 # k @ 125 # v \<and> 123 \<notin> set u \<and> 125 \<notin> set v)"
  proof
    assume some: "parseModelAction parse text \<noteq> None"
    have "123 \<in> set (trim text)"
    proof (rule ccontr)
      assume "123 \<notin> set (trim text)"
      then have "parseModelAction parse text = None" by (rule no_open)
      with some show False by simp
    qed
    then obtain u w where u: "trim text = u @ 123 # w" "123 \<notin> set u"
      using split_list_first [of 123 "trim text"] by auto
    have "125 \<in> set w"
    proof (rule ccontr)
      assume "125 \<notin> set w"
      with u have "parseModelAction parse text = None" by (rule reversed)
      with some show False by simp
    qed
    then obtain k v where "w = k @ 125 # v" "125 \<notin> set v"
      using split_list_last [of 125 w] by auto
    then have "trim text = u @ 123 # k @ 125 # v \<and> 123 \<notin> set u \<and> 125 \<notin> set v"
      using u by simp
    then show "\<exists>u k v. trim text = u @ 123 # k @ 125 # v \<and> 123 \<notin> set u \<and> 125 \<notin> set v"
      by blast
  qed
  show ?thesis
    unfolding Let_def cand_def [symmetric]
    using first built n1 n2 n3 n4 n5 n6 n7 n8 by - (intro conjI; assumption)
qed

theorem parseModelAction_never_raises_witness:
  \<open>parseModelAction JSONparse (js ''ok: {"action":"create_file","path":"a.ts","content":7} '')
     = Some \<lparr>action = js ''create_file'', path = Some (js ''a.ts''), content = None\<rparr>
   \<and> parseModelAction JSONparse (js ''not json'') = None
   \<and> parseModelAction JSONparse (js ''{"action":"delete_file"}'') = None\<close>
proof -
  have t0: \<open>trim (js ''ok: {"action":"create_file","path":"a.ts","content":7} '')
              = js ''ok: '' @ 123 # js ''"action":"create_file","path":"a.ts","content":7'' @ 125 # []\<close>
    \<open>123 \<notin> set (js ''ok: '')\<close> \<open>125 \<notin> set []\<close>
    by (simp_all add: string_eval)
  have obj0: \<open>JSONparse (123 # js ''"action":"create_file","path":"a.ts","content":7'' @ [125])
      = Some (JObject [(js ''action'', JString (js ''create_file'')),
                       (js ''path'', JString (js ''a.ts'')), (js ''content'', JNumber (js ''7''))])\<close>
    by (simp add: json_eval js_def startsWith_def)
  have props0:
    \<open>getProp (JObject [(js ''action'', JString (js ''create_file'')),
                       (js ''path'', JString (js ''a.ts'')), (js ''content'', JNumber (js ''7''))])
        (js ''action'') = Some (JString (js ''create_file''))\<close>
    \<open>getProp (JObject [(js ''action'', JString (js ''create_file'')),
                       (js ''path'', JString (js ''a.ts'')), (js ''content'', JNumber (js ''7''))])
        (js ''path'') = Some (JString (js ''a.ts''))\<close>
    \<open>getProp (JObject [(js ''action'', JString (js ''create_file'')),
                       (js ''path'', JString (js ''a.ts'')), (js ''content'', JNumber (js ''7''))])
        (js ''content'') = Some (JNumber (js ''7''))\<close>
    \<open>js ''create_file'' \<in> {js ''create_file'', js ''append_file'', js ''insert_code''}\<close>
    by (simp_all add: js_def)
  have t1: \<open>trim (js ''not json'') = js ''not json''\<close> \<open>123 \<notin> set (js ''not json'')\<close>
    by (simp_all add: string_eval)
  have t2: \<open>trim (js ''{"action":"delete_file"}'') = js ''{"action":"delete_file"}''\<close>
    by (simp add: string_eval)
  have cand: \<open>slice (js ''{"action":"delete_file"}'') (indexOf (js ''{"action":"delete_file"}'') [123])
                (lastIndexOf (js ''{"action":"delete_file"}'') [125] + 1) = js ''{"action":"delete_file"}''\<close>
    by (simp add: string_eval)
  have obj: \<open>JSONparse (js ''{"action":"delete_file"}'')
              = Some (JObject [(js ''action'', JString (js ''delete_file''))])\<close>
    by (simp add: json_eval js_def startsWith_def)
  have kind: \<open>getProp (JObject [(js ''action'', JString (js ''delete_file''))]) (js ''action'')
                = Some (JString (js ''delete_file''))\<close>
    \<open>js ''delete_file'' \<notin> {js ''create_file'', js ''append_file'', js ''insert_code''}\<close>
    by (simp_all add: js_def)
  note ok = parseModelAction_never_raises
      [of \<open>js ''ok: {"action":"create_file","path":"a.ts","content":7} ''\<close> JSONparse,
       unfolded Let_def, THEN conjunct1, rule_format, OF conjI [OF t0(1) conjI [OF t0(2,3)]]]
  have obj0': \<open>JSONparse (slice (trim (js ''ok: {"action":"create_file","path":"a.ts","content":7} ''))
       (indexOf (trim (js ''ok: {"action":"create_file","path":"a.ts","content":7} '')) [123])
       (lastIndexOf (trim (js ''ok: {"action":"create_file","path":"a.ts","content":7} '')) [125] + 1))
      = Some (JObject [(js ''action'', JString (js ''create_file'')),
                       (js ''path'', JString (js ''a.ts'')), (js ''content'', JNumber (js ''7''))])\<close>
    unfolding ok [THEN conjunct1] by (rule obj0)
  have r0: \<open>parseModelAction JSONparse
               (js ''ok: {"action":"create_file","path":"a.ts","content":7} '')
             = Some \<lparr>action = js ''create_file'', path = Some (js ''a.ts''), content = None\<rparr>\<close>
    using ok [THEN conjunct2, rule_format, OF conjI [OF obj0' conjI [OF props0(1,4)]]]
    unfolding props0(2,3) by simp
  have r1: \<open>parseModelAction JSONparse (js ''not json'') = None\<close>
    using parseModelAction_never_raises [of \<open>js ''not json''\<close> JSONparse] t1
    unfolding Let_def by simp
  have r2: \<open>parseModelAction JSONparse (js ''{"action":"delete_file"}'') = None\<close>
    using parseModelAction_never_raises [of \<open>js ''{"action":"delete_file"}''\<close> JSONparse]
      obj kind
    unfolding Let_def t2 cand by blast
  show ?thesis using r0 r1 r2 by simp
qed

text \<open>
  C4 (amended): let \<open>j\<close> be an object text, from its \<open>{\<close> to its \<open>}\<close>, for which the parser
  returns an object whose \<open>action\<close> is a string among the three supported kinds. For every
  prose \<open>p\<close> without \<open>{\<close> and every prose \<open>s\<close> without \<open>}\<close>, \<open>parseModelAction (p + j + s)\<close>
  returns the action that \<open>j\<close> describes: that kind, with the object's \<open>path\<close> and
  \<open>content\<close> where they are strings. The example of the specification yields the
  \<open>create_file\<close> action with path \<open>src/new.ts\<close> and content \<open>x\<close>.
\<close>

theorem action_between_prose:
  assumes "j = 123 # k @ [125]" and "123 \<notin> set p" and "125 \<notin> set s"
    and "parse j = Some obj"
    and "getProp obj (js ''action'') = Some (JString kind)"
    and "kind \<in> {js ''create_file'', js ''append_file'', js ''insert_code''}"
  shows \<open>parseModelAction parse (p @ j @ s)
           = Some \<lparr>action = kind,
                   path = (case getProp obj (js ''path'') of
                             Some (JString x) \<Rightarrow> Some x | _ \<Rightarrow> None),
                   content = (case getProp obj (js ''content'') of
                                Some (JString x) \<Rightarrow> Some x | _ \<Rightarrow> None)\<rparr>
         \<and> parseModelAction parse (p @ j @ s) = parseModelAction parse j
         \<and> parseModelAction JSONparse
              (js ''noise {"action":"create_file","path":"src/new.ts","content":"x"} noise'')
            = Some \<lparr>action = js ''create_file'', path = Some (js ''src/new.ts''),
                    content = Some (js ''x'')\<rparr>\<close>
proof -
  have described: \<open>parseModelAction parse (p @ j @ s)
           = Some \<lparr>action = kind,
                   path = (case getProp obj (js ''path'') of
                             Some (JString x) \<Rightarrow> Some x | _ \<Rightarrow> None),
                   content = (case getProp obj (js ''content'') of
                                Some (JString x) \<Rightarrow> Some x | _ \<Rightarrow> None)\<rparr>\<close>
    unfolding parseModelAction_embedded [OF assms(1-3)]
    using assms(4-6) by (simp add: validActions_def)
  have "parseModelAction parse ([] @ j @ []) = parseModelAction parse (p @ j @ s)"
    unfolding parseModelAction_embedded [OF assms(1-3)]
    by (rule parseModelAction_embedded [OF assms(1)]) simp_all
  moreover have \<open>parseModelAction JSONparse
              (js ''noise {"action":"create_file","path":"src/new.ts","content":"x"} noise'')
            = Some \<lparr>action = js ''create_file'', path = Some (js ''src/new.ts''),
                    content = Some (js ''x'')\<rparr>\<close>
    by (simp add: parseModelAction_unfold json_eval string_eval)
  ultimately show ?thesis using described by simp
qed

theorem action_between_prose_witness:
  \<open>parseModelAction JSONparse
       (js ''Sure, here it is: '' @ js ''{"action":"append_file","path":"README.md","content":"More docs"}''
          @ js '' Done.'')
     = Some \<lparr>action = js ''append_file'', path = Some (js ''README.md''),
             content = Some (js ''More docs'')\<rparr>\<close>
proof -
  have j: \<open>js ''{"action":"append_file","path":"README.md","content":"More docs"}''
            = 123 # js ''"action":"append_file","path":"README.md","content":"More docs"'' @ [125]\<close>
    by (simp add: js_def)
  have p: \<open>123 \<notin> set (js ''Sure, here it is: '')\<close> and s: \<open>125 \<notin> set (js '' Done.'')\<close>
    by (simp_all add: js_def)
  have obj: \<open>JSONparse (js ''{"action":"append_file","path":"README.md","content":"More docs"}'')
      = Some (JObject [(js ''action'', JString (js ''append_file'')),
                       (js ''path'', JString (js ''README.md'')),
                       (js ''content'', JString (js ''More docs''))])\<close>
    by (simp add: json_eval js_def startsWith_def)
  have props:
    \<open>getProp (JObject [(js ''action'', JString (js ''append_file'')),
                       (js ''path'', JString (js ''README.md'')),
                       (js ''content'', JString (js ''More docs''))])
        (js ''action'') = Some (JString (js ''append_file''))\<close>
    \<open>getProp (JObject [(js ''action'', JString (js ''append_file'')),
                       (js ''path'', JString (js ''README.md'')),
                       (js ''content'', JString (js ''More docs''))])
        (js ''path'') = Some (JString (js ''README.md''))\<close>
    \<open>getProp (JObject [(js ''action'', JString (js ''append_file'')),
                       (js ''path'', JString (js ''README.md'')),
                       (js ''content'', JString (js ''More docs''))])
        (js ''content'') = Some (JString (js ''More docs''))\<close>
    \<open>js ''append_file'' \<in> {js ''create_file'', js ''append_file'', js ''insert_code''}\<close>
    by (simp_all add: js_def)
  from action_between_prose [where parse = JSONparse, OF j p s obj props(1,4)]
  show ?thesis unfolding props(2,3) by simp
qed

theorem action_between_prose_counterexample:
  \<open>parseModelAction JSONparse (js ''{"action":"insert_code","content":"a"}'')
     = Some \<lparr>action = js ''insert_code'', path = None, content = Some (js ''a'')\<rparr>
   \<and> parseModelAction JSONparse
       (js ''use {curly} braces: '' @ js ''{"action":"insert_code","content":"a"}'' @ []) = None
   \<and> parseValue (2 * length (js ''{curly} braces: {"action":"insert_code","content":"a"}'') + 1)
         (js ''{curly} braces: {"action":"insert_code","content":"a"}'')
       = Inl SyntaxError\<close>
  by (simp add: parseModelAction_unfold json_eval string_eval)

section \<open>The clean-up of the comment stripper\<close>

lemma isWhiteSpace_newline [simp]: "isWhiteSpace 10" "isWhiteSpace 13"
  by (simp_all add: isWhiteSpace_def)

text \<open>Deleting trailing white space with the pattern is \<open>trimEnd\<close>.\<close>

lemma rmatch_Star_Eol:
  "rmatch [Star P, Eol] p s =
     (if \<forall>c \<in> set s. P c then Some (if s = [] then p else Some (last s), []) else None)"
  by (induction s arbitrary: p) auto

lemma rmatch_trailingSpace:
  "rmatch trailingSpace p s =
     (if s \<noteq> [] \<and> (\<forall>c \<in> set s. isWhiteSpace c) then Some (Some (last s), []) else None)"
  by (cases s) (auto simp: trailingSpace_def rmatch_Star_Eol)

lemma trimEnd_Cons:
  "trimEnd (x # xs) = (if \<forall>c \<in> set (x # xs). isWhiteSpace c then [] else x # trimEnd xs)"
  by (auto simp: trimEnd_def dropWhile_append dropWhile_eq_Nil_conv)

lemma replaceAll_trailingSpace: "replaceAll trailingSpace p s = trimEnd s"
proof (induction s arbitrary: p)
  case Nil
  show ?case by (simp add: trimEnd_def)
next
  case (Cons x xs)
  show ?case
    unfolding replaceAll.simps rmatch_trailingSpace trimEnd_Cons
    by (simp add: Cons.IH)
qed

text \<open>Splitting a text made of lines without a line feed that do not end with a carriage return.\<close>

lemma rmatch_lineBreak_none:
  "x \<noteq> 10 \<Longrightarrow> (x = 13 \<longrightarrow> xs \<noteq> [] \<and> hd xs \<noteq> 10)
     \<Longrightarrow> rmatch lineBreak p (x # xs) = None"
  by (cases xs) (auto simp: lineBreak_def)

lemma splitRe_line:
  assumes "10 \<notin> set l" and "l = [] \<or> last l \<noteq> 13"
  shows "splitRe lineBreak p acc (l @ 10 # rest) = (acc @ l) # splitRe lineBreak (Some 10) [] rest"
  using assms
proof (induction l arbitrary: p acc)
  case Nil
  show ?case by (simp add: lineBreak_def)
next
  case (Cons c l)
  have "rmatch lineBreak p (c # l @ 10 # rest) = None"
    using Cons.prems by (cases l) (auto simp: lineBreak_def split: if_splits)
  moreover have "l = [] \<or> last l \<noteq> 13"
    using Cons.prems by (auto split: if_splits)
  ultimately show ?case
    using Cons.IH [of "Some c" "acc @ [c]"] Cons.prems by simp
qed

lemma splitRe_last_line:
  assumes "10 \<notin> set l"
  shows "splitRe lineBreak p acc l = [acc @ l]"
  using assms
proof (induction l arbitrary: p acc)
  case Nil
  show ?case by simp
next
  case (Cons c l)
  have "rmatch lineBreak p (c # l) = None"
    using Cons.prems by (cases l) (auto simp: lineBreak_def)
  then show ?case
    using Cons.IH [of "Some c" "acc @ [c]"] Cons.prems by simp
qed

lemma splitRe_join:
  assumes "\<forall>l \<in> set ls. 10 \<notin> set l \<and> (l = [] \<or> last l \<noteq> 13)" and "ls \<noteq> []"
  shows "splitRe lineBreak p [] (join [10] ls) = ls"
  using assms
proof (induction ls arbitrary: p)
  case Nil
  then show ?case by simp
next
  case (Cons l ls)
  show ?case
  proof (cases ls)
    case Nil
    then show ?thesis using Cons.prems by (simp add: splitRe_last_line)
  next
    case (Cons m ms)
    then show ?thesis
      using Cons.prems Cons.IH [of "Some 10"] by (simp add: splitRe_line)
  qed
qed

text \<open>The lines that the clean-up joins.\<close>

lemma trimEnd_eq_Nil: "trimEnd l = [] \<longleftrightarrow> (\<forall>c \<in> set l. isWhiteSpace c)"
  by (auto simp: trimEnd_def dropWhile_eq_Nil_conv)

lemma trimEnd_last: "trimEnd l \<noteq> [] \<Longrightarrow> \<not> isWhiteSpace (last (trimEnd l))"
  unfolding trimEnd_def by (simp add: last_rev hd_dropWhile)

lemma trimEnd_id: "l \<noteq> [] \<Longrightarrow> \<not> isWhiteSpace (last l) \<Longrightarrow> trimEnd l = l"
  by (cases l rule: rev_cases) (simp_all add: trimEnd_def)

lemma trimStart_id: "l \<noteq> [] \<Longrightarrow> \<not> isWhiteSpace (hd l) \<Longrightarrow> trimStart l = l"
  by (cases l) (simp_all add: trimStart_def)

lemma trim_eq_Nil: "trim l = [] \<longleftrightarrow> (\<forall>c \<in> set l. isWhiteSpace c)"
  unfolding trim_def trimEnd_eq_Nil trimStart_def
  by (metis dropWhile_eq_Nil_conv set_dropWhileD hd_dropWhile hd_in_set)

lemma splitRe_no_linefeed:
  "10 \<notin> set acc \<Longrightarrow> \<forall>l \<in> set (splitRe lineBreak p acc s). 10 \<notin> set l"
proof (induction lineBreak p acc s rule: splitRe.induct)
  case (1 p acc)
  then show ?case by simp
next
  case (2 p acc x xs)
  show ?case
  proof (cases "rmatch lineBreak p (x # xs)")
    case None
    then have "x \<noteq> 10"
      by (auto simp: lineBreak_def split: if_splits)
    then show ?thesis
      using None 2 by simp
  next
    case (Some m)
    obtain p' s' where m: "m = (p', s')" by (cases m)
    have "length s' < length (x # xs)"
      using Some unfolding m by (cases xs) (auto simp: lineBreak_def split: if_splits)
    then show ?thesis
      using Some 2 m by simp
  qed
qed

lemma cleanLine_kept:
  assumes "10 \<notin> set l" and "trim (trimEnd l) \<noteq> []"
  shows "cleanLine (trimEnd l)"
proof -
  have "trim [] = []"
    by (simp add: trim_def trimStart_def trimEnd_def)
  with assms(2) have "trimEnd l \<noteq> []"
    by auto
  then show ?thesis
    using assms(1) set_trimEnd [of l] by (auto simp: cleanLine_def trimEnd_last)
qed

lemma cleanUp_lines:
  "\<forall>l \<in> set (filter (\<lambda>line. trim line \<noteq> [])
       (map (replaceAll trailingSpace None) (splitRe lineBreak None [] text))). cleanLine l"
  using splitRe_no_linefeed [of "[]" None "text"]
  by (auto simp: replaceAll_trailingSpace cleanLine_kept)

text \<open>Joined clean lines are a fixed point of the clean-up, up to the leading white space.\<close>

lemma join_Cons: "join sep (l # ls) = (if ls = [] then l else l @ sep @ join sep ls)"
  by (cases ls) simp_all

lemma join_eq_Nil: "join sep ls = [] \<Longrightarrow> ls = [] \<or> hd ls = []"
  by (cases ls) (auto simp: join_Cons split: if_splits)

lemma last_join:
  "ls \<noteq> [] \<Longrightarrow> last ls \<noteq> [] \<Longrightarrow> join sep ls \<noteq> [] \<and> last (join sep ls) = last (last ls)"
  by (induction ls) (auto simp: join_Cons)

lemma trimStart_append:
  "\<exists>c \<in> set l. \<not> isWhiteSpace c \<Longrightarrow> trimStart (l @ r) = trimStart l @ r"
  by (auto simp: trimStart_def dropWhile_append)

lemma cleanLine_visible: "cleanLine l \<Longrightarrow> \<exists>c \<in> set l. \<not> isWhiteSpace c"
  by (auto simp: cleanLine_def intro: bexI [of _ "last l"])

lemma cleanLine_trimStart: "cleanLine l \<Longrightarrow> cleanLine (trimStart l)"
proof -
  assume l: "cleanLine l"
  then obtain u c where u: "l = u @ [c]" and c: "\<not> isWhiteSpace c"
    by (cases l rule: rev_cases) (auto simp: cleanLine_def)
  have "trimStart l = trimStart u @ [c]"
    using c unfolding u trimStart_def by (simp add: dropWhile_append)
  moreover have "set (trimStart u) \<subseteq> set u"
    unfolding trimStart_def by (auto dest: set_dropWhileD)
  ultimately show ?thesis
    using l c unfolding u cleanLine_def by auto
qed

lemma trim_join:
  assumes "\<forall>l \<in> set (l # ls). cleanLine l"
  shows "trim (join [10] (l # ls)) = join [10] (trimStart l # ls)"
proof -
  have vis: "\<exists>c \<in> set l. \<not> isWhiteSpace c"
    using assms by (simp add: cleanLine_visible)
  have start: "trimStart (join [10] (l # ls)) = join [10] (trimStart l # ls)"
    using vis by (simp add: join_Cons trimStart_append)
  have clean: "\<forall>k \<in> set (trimStart l # ls). cleanLine k"
    using assms by (simp add: cleanLine_trimStart)
  then have "last (trimStart l # ls) \<noteq> []"
    by (auto simp: cleanLine_def)
  from last_join [OF _ this, of "[10]"] clean
  have "join [10] (trimStart l # ls) \<noteq> []"
    and "\<not> isWhiteSpace (last (join [10] (trimStart l # ls)))"
    by (auto simp: cleanLine_def)
  then show ?thesis
    unfolding trim_def start by (rule trimEnd_id)
qed

lemma hd_trimStart: "trimStart l \<noteq> [] \<Longrightarrow> \<not> isWhiteSpace (hd (trimStart l))"
  unfolding trimStart_def by (rule hd_dropWhile)

lemma cleanUp_join:
  assumes "\<forall>l \<in> set (l # ls). cleanLine l" and "\<not> isWhiteSpace (hd l)"
  shows "cleanUp (join [10] (l # ls)) = join [10] (l # ls)"
proof -
  have lines: "\<forall>k \<in> set (l # ls). 10 \<notin> set k \<and> (k = [] \<or> last k \<noteq> 13)"
    using assms(1) by (auto simp: cleanLine_def)
  have split: "splitRe lineBreak None [] (join [10] (l # ls)) = l # ls"
    by (rule splitRe_join [OF lines]) simp
  have strip: "map (replaceAll trailingSpace None) (l # ls) = l # ls"
    using assms(1) by (auto simp: replaceAll_trailingSpace cleanLine_def trimEnd_id map_idI)
  have keep: "filter (\<lambda>line. trim line \<noteq> []) (l # ls) = l # ls"
    using assms(1) cleanLine_visible by (auto simp: trim_eq_Nil filter_id_conv)
  have "trimStart l = l"
    using assms by (auto simp: cleanLine_def trimStart_id)
  then show ?thesis
    unfolding cleanUp_def split strip keep using trim_join [OF assms(1)] by simp
qed

lemma cleanUp_idem: "cleanUp (cleanUp z) = cleanUp z"
proof -
  define ls where "ls = filter (\<lambda>line. trim line \<noteq> [])
       (map (replaceAll trailingSpace None) (splitRe lineBreak None [] z))"
  have clean: "\<forall>l \<in> set ls. cleanLine l"
    unfolding ls_def by (rule cleanUp_lines)
  have z: "cleanUp z = trim (join [10] ls)"
    by (simp add: cleanUp_def ls_def)
  show ?thesis
  proof (cases ls)
    case Nil
    have "cleanUp [] = []"
      by (simp add: cleanUp_def replaceAll_trailingSpace trimEnd_def trim_def trimStart_def)
    then show ?thesis
      unfolding z Nil by (simp add: trim_def trimStart_def trimEnd_def)
  next
    case (Cons l ks)
    have 1: "cleanUp z = join [10] (trimStart l # ks)"
      unfolding z Cons using clean Cons by (intro trim_join) simp
    have 2: "\<forall>k \<in> set (trimStart l # ks). cleanLine k"
      using clean Cons by (simp add: cleanLine_trimStart)
    then have "trimStart l \<noteq> []"
      by (simp add: cleanLine_def)
    then have 3: "\<not> isWhiteSpace (hd (trimStart l))"
      by (rule hd_trimStart)
    show ?thesis
      unfolding 1 by (rule cleanUp_join [OF 2 3])
  qed
qed

text \<open>A pass that deletes matches returns its input or a shorter text.\<close>

lemma replaceAll_same_or_shorter:
  "replaceAll r p s = s \<or> length (replaceAll r p s) < length s"
proof (induction r p s rule: replaceAll.induct)
  case (1 r p)
  show ?case by simp
next
  case (2 r p x xs)
  show ?case
  proof (cases "rmatch r p (x # xs)")
    case None
    then show ?thesis using 2 by auto
  next
    case (Some m)
    obtain p' s' where m: "m = (p', s')" by (cases m)
    show ?thesis
    proof (cases "length s' < length (x # xs)")
      case True
      then have "replaceAll r p' s' = s' \<or> length (replaceAll r p' s') < length s'"
        using 2 Some m by auto
      then show ?thesis
        using True Some m by auto
    next
      case False
      then have "replaceAll r (Some x) xs = xs \<or> length (replaceAll r (Some x) xs) < length xs"
        using 2 Some m by auto
      then show ?thesis
        using False Some m by auto
    qed
  qed
qed

lemma removeComments_same_or_shorter:
  "removeComments s = s \<or> length (removeComments s) < length s"
proof -
  have step: "\<And>r t. (t = s \<or> length t < length s)
      \<Longrightarrow> (replaceAll r None t = s \<or> length (replaceAll r None t) < length s)"
    using replaceAll_same_or_shorter by (metis less_trans)
  show ?thesis
    unfolding removeComments_def by (intro step) simp
qed

lemma length_trim: "length (trim s) \<le> length s"
  unfolding trim_def trimEnd_def trimStart_def
  by (metis length_dropWhile_le length_rev le_trans)

lemma length_trimEnd: "length (trimEnd s) \<le> length s"
  unfolding trimEnd_def by (metis length_dropWhile_le length_rev)

lemma length_join_Cons: "length (join [10] (l # ls)) \<le> length l + (if ls = [] then 0 else 1 + length (join [10] ls))"
  by (cases ls) simp_all

lemma length_join_filter:
  "length (join [10] (filter f ls)) \<le> length (join [10] ls)"
proof (induction ls)
  case Nil
  show ?case by simp
next
  case (Cons l ls)
  show ?case
  proof (cases "f l")
    case True
    then show ?thesis using Cons by (cases ls; cases "filter f ls") (auto simp: join_Cons)
  next
    case False
    then show ?thesis using Cons by (cases ls) (auto simp: join_Cons)
  qed
qed

lemma length_join_map:
  "(\<And>l. length (g l) \<le> length l) \<Longrightarrow> length (join [10] (map g ls)) \<le> length (join [10] ls)"
proof (induction ls)
  case Nil
  show ?case by simp
next
  case (Cons l ls)
  then show ?case
    using Cons.prems [of l] by (cases ls) (auto simp: join_Cons intro: add_mono)
qed

lemma splitRe_not_Nil: "splitRe r p acc s \<noteq> []"
  by (induction r p acc s rule: splitRe.induct) (auto split: option.splits)

lemma length_join_splitRe:
  "length (join [10] (splitRe lineBreak p acc s)) \<le> length acc + length s"
proof (induction lineBreak p acc s rule: splitRe.induct)
  case (1 p acc)
  show ?case by simp
next
  case (2 p acc x xs)
  show ?case
  proof (cases "rmatch lineBreak p (x # xs)")
    case None
    then have "length (join [10] (splitRe lineBreak (Some x) (acc @ [x]) xs))
        \<le> length (acc @ [x]) + length xs"
      using 2 by auto
    then show ?thesis using None by simp
  next
    case (Some m)
    obtain p' s' where m: "m = (p', s')" by (cases m)
    have shorter: "length s' < length (x # xs)"
      using Some unfolding m by (cases xs) (auto simp: lineBreak_def split: if_splits)
    have "length (join [10] (splitRe lineBreak p' [] s')) \<le> length [] + length s'"
      using 2 Some m shorter by auto
    moreover have "splitRe lineBreak p' [] s' \<noteq> []"
      by (rule splitRe_not_Nil)
    ultimately show ?thesis
      using Some m shorter by (simp add: join_Cons)
  qed
qed

lemma length_cleanUp: "length (cleanUp z) \<le> length z"
proof -
  have "length (cleanUp z)
      \<le> length (join [10] (filter (\<lambda>line. trim line \<noteq> [])
           (map (replaceAll trailingSpace None) (splitRe lineBreak None [] z))))"
    unfolding cleanUp_def by (rule length_trim)
  also have "\<dots> \<le> length (join [10] (map (replaceAll trailingSpace None) (splitRe lineBreak None [] z)))"
    by (rule length_join_filter)
  also have "\<dots> \<le> length (join [10] (splitRe lineBreak None [] z))"
    by (rule length_join_map) (simp add: replaceAll_trailingSpace length_trimEnd)
  also have "\<dots> \<le> length z"
    using length_join_splitRe [of None "[]" z] by simp
  finally show ?thesis .
qed

text \<open>
  C7 (amended): applying the stripper twice gives the result of applying it once exactly
  when that result holds no comment that the four deleting passes would still delete;
  and the clean-up that follows the passes is idempotent.
\<close>

theorem stripComments_idempotent_iff:
  "(stripComments (stripComments x) = stripComments x
      \<longleftrightarrow> removeComments (stripComments x) = stripComments x)
   \<and> cleanUp (cleanUp z) = cleanUp z"
proof (intro conjI iffI)
  show "cleanUp (cleanUp z) = cleanUp z"
    by (rule cleanUp_idem)
next
  assume fixed: "removeComments (stripComments x) = stripComments x"
  show "stripComments (stripComments x) = stripComments x"
  proof (cases "stripComments x = []")
    case True
    then show ?thesis by (simp add: stripComments_def)
  next
    case False
    then have "stripComments x = cleanUp (removeComments x)"
      by (auto simp: stripComments_def split: if_splits)
    then have "cleanUp (stripComments x) = stripComments x"
      by (simp add: cleanUp_idem)
    then show ?thesis
      using False fixed by (simp add: stripComments_def [of "stripComments x"])
  qed
next
  assume idem: "stripComments (stripComments x) = stripComments x"
  show "removeComments (stripComments x) = stripComments x"
  proof (rule ccontr)
    assume "removeComments (stripComments x) \<noteq> stripComments x"
    then have shorter: "length (removeComments (stripComments x)) < length (stripComments x)"
      using removeComments_same_or_shorter [of "stripComments x"] by simp
    then have "stripComments x \<noteq> []"
      by auto
    then have "stripComments (stripComments x) = cleanUp (removeComments (stripComments x))"
      by (simp add: stripComments_def [of "stripComments x"])
    then have "length (stripComments (stripComments x)) < length (stripComments x)"
      using length_cleanUp [of "removeComments (stripComments x)"] shorter by simp
    then show False
      using idem by simp
  qed
qed

theorem stripComments_idempotent_iff_witness:
  \<open>removeComments (stripComments (js ''a=1;  \<newline># note\<newline>\<newline>b=2; /* two */\<newline>''))
     = stripComments (js ''a=1;  \<newline># note\<newline>\<newline>b=2; /* two */\<newline>'')
   \<and> stripComments (stripComments (js ''a=1;  \<newline># note\<newline>\<newline>b=2; /* two */\<newline>''))
     = stripComments (js ''a=1;  \<newline># note\<newline>\<newline>b=2; /* two */\<newline>'')\<close>
proof -
  have once: \<open>stripComments (js ''a=1;  \<newline># note\<newline>\<newline>b=2; /* two */\<newline>'')
                = js ''a=1;\<newline>b=2;''\<close>
    by (simp add: strip_eval string_eval)
  have fixed: \<open>removeComments (js ''a=1;\<newline>b=2;'') = js ''a=1;\<newline>b=2;''\<close>
    by (simp add: strip_eval string_eval)
  show ?thesis
    using stripComments_idempotent_iff [of \<open>js ''a=1;  \<newline># note\<newline>\<newline>b=2; /* two */\<newline>''\<close>]
    unfolding once using fixed by simp
qed

theorem stripComments_idempotent_counterexample:
  \<open>stripComments (js ''<!/**/-- x -->'') = js ''<!-- x -->''
   \<and> stripComments (js ''<!-- x -->'') = []
   \<and> stripComments (stripComments (js ''<!/**/-- x -->'')) \<noteq> stripComments (js ''<!/**/-- x -->'')\<close>
proof -
  have 1: \<open>stripComments (js ''<!/**/-- x -->'') = js ''<!-- x -->''\<close>
    by (simp add: strip_eval string_eval)
  have 2: \<open>stripComments (js ''<!-- x -->'') = []\<close>
    by (simp add: strip_eval string_eval)
  have 3: \<open>js ''<!-- x -->'' \<noteq> []\<close>
    by (simp add: js_def)
  show ?thesis
    unfolding 1 2 using 3 by simp
qed

section \<open>The deleting passes of the comment stripper\<close>









text \<open>The line passes.\<close>

lemma rmatch_Star_all:
  assumes "\<forall>c \<in> set w. P c" and "s = [] \<or> \<not> P (hd s)"
    and "rmatch r (before p w) s = Some m"
  shows "rmatch (Star P # r) p (w @ s) = Some m"
  using assms(1,3)
proof (induction w arbitrary: p)
  case Nil
  then show ?case
    using assms(2) by (cases s) (auto simp: before_def)
next
  case (Cons x w)
  have "before (Some x) w = before p (x # w)"
    by (simp add: before_def)
  then have "rmatch r (before (Some x) w) s = Some m"
    using Cons.prems(2) by simp
  then have "rmatch (Star P # r) (Some x) (w @ s) = Some m"
    using Cons.IH Cons.prems(1) by simp
  then show ?case
    using Cons.prems(1) by simp
qed

lemma rmatch_Star_fail:
  assumes "\<forall>c \<in> set w. P c \<and> c \<noteq> a" and "s = [] \<or> \<not> P (hd s)"
    and "\<And>q. rmatch (Chr a # r) q s = None"
  shows "rmatch (Star P # Chr a # r) p (w @ s) = None"
  using assms(1)
proof (induction w arbitrary: p)
  case Nil
  then show ?case
    using assms(2,3) by (cases s) auto
next
  case (Cons x w)
  then show ?case by simp
qed

lemma replaceAll_inside_line:
  assumes "\<not> isLineTerminator q" and "\<forall>c \<in> set l. \<not> isLineTerminator c"
  shows "replaceAll (BolM # r) (Some q) (l @ rest)
           = l @ replaceAll (BolM # r) (before (Some q) l) rest"
  using assms
proof (induction l arbitrary: q)
  case Nil
  show ?case by (simp add: before_def)
next
  case (Cons x l)
  have "replaceAll (BolM # r) (Some x) (l @ rest)
          = l @ replaceAll (BolM # r) (before (Some x) l) rest"
    using Cons.IH [of x] Cons.prems by simp
  moreover have "before (Some x) l = before (Some q) (x # l)"
    by (simp add: before_def)
  ultimately show ?case
    using Cons.prems(1) by simp
qed

lemma not_space [simp]: "\<not> isWhiteSpace 47" "\<not> isWhiteSpace 35" "\<not> isLineTerminator 47"
  "\<not> isLineTerminator 35" "\<not> isLineTerminator 33"
  by (simp_all add: isWhiteSpace_def isLineTerminator_def)




lemma rmatch_hashLine_shebang:
  assumes "\<forall>x \<in> set ws. isWhiteSpace x"
  shows "rmatch hashLine p (ws @ 35 # 33 # t) = None"
proof -
  have "rmatch [Star isWhiteSpace, Chr 35, NotAhead 33, Star dotChar, EolM] q
          (ws @ 35 # 33 # t) = None" for q
    using assms by (intro rmatch_Star_fail) auto
  then show ?thesis
    by (cases p) (simp_all add: hashLine_def)
qed

lemma replaceAll_shebang_space:
  assumes "\<forall>x \<in> set ws. isWhiteSpace x"
  shows "replaceAll hashLine p (ws @ 35 # 33 # t) = ws @ replaceAll hashLine (before p ws) (35 # 33 # t)"
  using assms
proof (induction ws arbitrary: p)
  case Nil
  show ?case by (simp add: before_def)
next
  case (Cons x ws)
  have "rmatch hashLine p ((x # ws) @ 35 # 33 # t) = None"
    using Cons.prems by (rule rmatch_hashLine_shebang)
  moreover have "before (Some x) ws = before p (x # ws)"
    by (simp add: before_def)
  ultimately show ?case
    using Cons.IH [of "Some x"] Cons.prems by simp
qed

lemma replaceAll_shebang:
  assumes "\<forall>x \<in> set ws. isWhiteSpace x" and "\<forall>x \<in> set c. \<not> isLineTerminator x"
  shows "replaceAll hashLine p (ws @ [35, 33] @ c @ rest)
           = ws @ [35, 33] @ c @ replaceAll hashLine (before (Some 33) c) rest"
proof -
  have "rmatch hashLine q ([] @ 35 # 33 # c @ rest) = None" for q
    by (rule rmatch_hashLine_shebang) simp
  then have "replaceAll hashLine q (35 # 33 # c @ rest)
               = 35 # replaceAll hashLine (Some 35) ((33 # c) @ rest)" for q
    by simp
  moreover have "replaceAll hashLine (Some 35) ((33 # c) @ rest)
                   = (33 # c) @ replaceAll hashLine (before (Some 35) (33 # c)) rest"
    unfolding hashLine_def using assms(2) by (intro replaceAll_inside_line) simp_all
  moreover have "before (Some 35) (33 # c) = before (Some 33) c"
    by (simp add: before_def)
  ultimately show ?thesis
    using replaceAll_shebang_space [OF assms(1), of p "c @ rest"] by simp
qed

lemma trim_Nil: "trim [] = []"
  by (simp add: trim_def trimStart_def trimEnd_def)







lemma take_append_take: "take m (u @ s) = take m (u @ take m s)"
  by simp











lemma afterComment_length: "afterComment C ls = Some after \<Longrightarrow> length after < length ls"
  by (induction ls) (auto split: if_splits)




lemma occursIn_set: "occursIn pat s \<Longrightarrow> set pat \<subseteq> set s"
proof (induction s)
  case Nil
  then show ?case by simp
next
  case (Cons x s)
  show ?case
  proof (cases "startsWith (x # s) pat")
    case True
    then have "pat = take (length pat) (x # s)"
      by (simp add: startsWith_def)
    then have "set pat \<subseteq> set (x # s)"
      by (metis set_take_subset)
    then show ?thesis .
  next
    case False
    then show ?thesis using Cons by auto
  qed
qed








section \<open>The code fence unwrapper\<close>

lemma indexOfFrom_no_first: "c \<notin> set s \<Longrightarrow> indexOfFrom (c # pat) s i = - 1"
  by (induction s arbitrary: i) (auto simp: startsWith_def)

lemma lastIndexOfFrom_short: "length s < length pat \<Longrightarrow> lastIndexOfFrom pat s i = - 1"
  by (induction s arbitrary: i) (auto simp: startsWith_def Let_def)

lemma lastIndexOfFrom_end:
  assumes "pat \<noteq> []" and "0 \<le> i"
  shows "lastIndexOfFrom pat (u @ pat) i = i + int (length u)"
  using assms(2)
proof (induction u arbitrary: i)
  case Nil
  obtain a pat' where pat: "pat = a # pat'"
    using assms(1) by (cases pat) auto
  have "lastIndexOfFrom pat pat' (i + 1) = - 1"
    by (rule lastIndexOfFrom_short) (simp add: pat)
  then have "lastIndexOfFrom pat (a # pat') i = i"
    by (simp add: Let_def startsWith_def pat)
  then show ?case by (simp add: pat)
next
  case (Cons x u)
  have "lastIndexOfFrom pat (u @ pat) (i + 1) = i + 1 + int (length u)"
    using Cons.IH [of "i + 1"] Cons.prems by simp
  then show ?case
    using Cons.prems by (simp add: Let_def)
qed

lemma rmatch_space_newline:
  "rmatch [Star isWhiteSpace, Chr 10] p s = Some (q, s')
     \<Longrightarrow> \<exists>w. s = w @ s' \<and> (\<forall>c \<in> set w. isWhiteSpace c)"
proof (induction s arbitrary: p)
  case Nil
  then show ?case by simp
next
  case (Cons x xs)
  show ?case
  proof (cases "isWhiteSpace x")
    case False
    then have "x \<noteq> 10" by auto
    then show ?thesis using Cons.prems False by simp
  next
    case True
    show ?thesis
    proof (cases "rmatch [Star isWhiteSpace, Chr 10] (Some x) xs")
      case None
      then have "x = 10" and "s' = xs"
        using Cons.prems True by (auto split: if_splits)
      then have "x # xs = [x] @ s' \<and> (\<forall>c \<in> set [x]. isWhiteSpace c)"
        using True by simp
      then show ?thesis by blast
    next
      case (Some m)
      then have "rmatch [Star isWhiteSpace, Chr 10] (Some x) xs = Some (q, s')"
        using Cons.prems True by simp
      then obtain w where "xs = w @ s'" and "\<forall>c \<in> set w. isWhiteSpace c"
        using Cons.IH by blast
      then have "x # xs = (x # w) @ s' \<and> (\<forall>c \<in> set (x # w). isWhiteSpace c)"
        using True by simp
      then show ?thesis by blast
    qed
  qed
qed

lemma rmatch_space_newline_some:
  "\<exists>m. rmatch [Star isWhiteSpace, Chr 10] p (10 # rest) = Some m"
  by (cases "rmatch [Star isWhiteSpace, Chr 10] (Some 10) rest") auto

lemma tagChar_not_space: "isTagChar c \<Longrightarrow> \<not> isWhiteSpace c"
  by (auto simp: isTagChar_def isWhiteSpace_def)

lemma trim_space_prefix: "\<forall>c \<in> set w. isWhiteSpace c \<Longrightarrow> trim (w @ s) = trim s"
  by (simp add: trim_def trimStart_def dropWhile_append)

lemma replaceFirst_languageLine:
  assumes "tag \<noteq> []" and "\<forall>c \<in> set tag. isTagChar c"
  shows "trim (replaceFirst languageLine None (tag @ 10 # rest)) = trim rest"
proof -
  obtain m where m: "rmatch [Star isWhiteSpace, Chr 10] (before None tag) (10 # rest) = Some m"
    using rmatch_space_newline_some by blast
  obtain q s' where qs: "m = (q, s')" by (cases m)
  obtain w where w: "10 # rest = w @ s'" "\<forall>c \<in> set w. isWhiteSpace c"
    using rmatch_space_newline m qs by blast
  have "\<not> isTagChar 10"
    by (simp add: isTagChar_def)
  then have tagged: "rmatch [Star isTagChar, Star isWhiteSpace, Chr 10] None (tag @ 10 # rest) = Some m"
    using assms(2) m by (intro rmatch_Star_all) auto
  obtain x xs where tag: "tag = x # xs"
    using assms(1) by (cases tag) auto
  have "\<not> isWhiteSpace x"
    using assms(2) tag by (simp add: tagChar_not_space)
  then have "rmatch languageLine None (x # xs @ 10 # rest) = Some m"
    using tagged unfolding tag languageLine_def by simp
  then have "replaceFirst languageLine None (tag @ 10 # rest) = s'"
    unfolding tag by (simp add: qs)
  moreover have "trim (10 # rest) = trim s'"
    unfolding w(1) using w(2) by (rule trim_space_prefix)
  moreover have "trim (10 # rest) = trim rest"
    using trim_space_prefix [of "[10]" rest] by simp
  ultimately show ?thesis by simp
qed

text \<open>
  A fence with a language tag on the line of the opening marker, and a text without a
  backtick.
\<close>

lemma unwrapCodeFence_tag_line:
  \<open>(tag \<noteq> [] \<longrightarrow> (\<forall>c \<in> set tag. isTagChar c) \<longrightarrow>
      unwrapCodeFence (js ''```'' @ tag @ [10] @ rest @ js ''```'') = trim rest)
   \<and> (96 \<notin> set plain \<longrightarrow> unwrapCodeFence plain = trim plain)\<close>
proof -
  have fenced: \<open>unwrapCodeFence (js ''```'' @ tag @ [10] @ rest @ js ''```'') = trim rest\<close>
    if tag: "tag \<noteq> []" "\<forall>c \<in> set tag. isTagChar c"
  proof -
    let ?m = \<open>js ''```''\<close>
    let ?text = "?m @ (tag @ 10 # rest) @ ?m"
    have m: "?m = [96, 96, 96]" by (simp add: js_def)
    have first: "indexOf ?text ?m = 0"
      by (simp add: indexOf_def startsWith_def m)
    have "lastIndexOfFrom ?m ((?m @ tag @ 10 # rest) @ ?m) 0 = 0 + int (length (?m @ tag @ 10 # rest))"
      by (rule lastIndexOfFrom_end) (simp_all add: m)
    then have last: "lastIndexOf ?text ?m = 3 + int (length (tag @ 10 # rest))"
      by (simp add: lastIndexOf_def m)
    have "slice ?text (int (length ?m)) (int (length ?m) + int (length (tag @ 10 # rest)))
            = tag @ 10 # rest"
      by (rule slice_middle)
    then have body: "slice ?text (0 + 3) (3 + int (length (tag @ 10 # rest))) = tag @ 10 # rest"
      by (simp add: m)
    have "unwrapCodeFence ?text = trim (replaceFirst languageLine None (tag @ 10 # rest))"
      unfolding unwrapCodeFence_unfold first last body by (simp add: m)
    then show ?thesis
      using replaceFirst_languageLine [OF tag] by simp
  qed
  have plain: "unwrapCodeFence plain = trim plain" if "96 \<notin> set plain"
  proof -
    have "indexOf plain (js ''```'') = - 1"
      using that by (simp add: indexOf_def js_def indexOfFrom_no_first)
    then show ?thesis
      by (simp add: unwrapCodeFence_unfold trim_Nil)
  qed
  show ?thesis
    using fenced plain by blast
qed

text \<open>
  C5: \<open>unwrapCodeFence\<close> on the three examples of the specification. The first and the
  third come out as stated. On the second, the fence without a language tag, the result
  is the empty text and not \<open>code\<close>: the leading \<open>\s*\<close> of the pattern passes the empty
  first line of the body, the tag class takes the word \<open>code\<close> on the second line and the
  line feed behind it closes the match, so the line of code is deleted as if it were the
  language name. The same happens to every first line of code that is made of tag
  characters only: in \<open>done\<close>, \<open>echo ok\<close> the line \<open>done\<close> is lost. A first line such as
  \<open>console.log("x");\<close>, the one of the repository's test, stops the tag class and is
  kept. The copy in \<open>lib/textUtils.ts\<close> is the same function.
\<close>

theorem unwrapCodeFence_untagged_fence_loses_line:
  \<open>unwrapCodeFence (js ''```ts\<newline>code\<newline>```'') = js ''code''
   \<and> unwrapCodeFence (js ''```\<newline>code\<newline>```'') = []
   \<and> js ''code'' \<noteq> []
   \<and> unwrapCodeFence (js ''  x  '') = js ''x''
   \<and> unwrapCodeFence (js ''```\<newline>done\<newline>echo ok\<newline>```'') = js ''echo ok''
   \<and> unwrapCodeFence (js ''```\<newline>console.log("x");\<newline>```'') = js ''console.log("x");''\<close>
  by (simp add: fence_eval string_eval)

end
